theory Spec2Isabelle
  imports Main
begin

section \<open>Library functions used by the rotating log file writer\<close>

text \<open>
  The writer of \<^verbatim>\<open>logger/logfile.go\<close> builds its file names with
  \<^verbatim>\<open>filepath.Ext\<close>, \<^verbatim>\<open>strings.TrimSuffix\<close>, \<^verbatim>\<open>fmt.Sprintf\<close>,
  \<^verbatim>\<open>filepath.Join\<close> and \<^verbatim>\<open>Time.Format\<close>. They are Go's standard library; the
  definitions below follow what the library does on a Unix system. A Go string is a byte
  sequence, here a \<^typ>\<open>string\<close>.
\<close>

subsection \<open>strings\<close>

definition strings_HasSuffix :: "string \<Rightarrow> string \<Rightarrow> bool" where
  "strings_HasSuffix s suf =
     (length suf \<le> length s \<and> drop (length s - length suf) s = suf)"

definition strings_TrimSuffix :: "string \<Rightarrow> string \<Rightarrow> string" where
  "strings_TrimSuffix s suf =
     (if strings_HasSuffix s suf then take (length s - length suf) s else s)"

subsection \<open>path/filepath\<close>

text \<open>
  \<^verbatim>\<open>filepath.Ext\<close> scans from the end of the path down to the last separator and
  returns the text from the last dot on; it is empty when the last element has no dot.
\<close>

definition filepath_Ext :: "string \<Rightarrow> string" where
  "filepath_Ext path =
     (let last_elem = takeWhile (\<lambda>c. c \<noteq> CHR ''/'') (rev path)
      in if CHR ''.'' \<in> set last_elem
         then CHR ''.'' # rev (takeWhile (\<lambda>c. c \<noteq> CHR ''.'') last_elem)
         else [])"

text \<open>The elements of a path between its separators, empty ones included.\<close>

fun split_slash :: "string \<Rightarrow> string list" where
  "split_slash [] = [[]]"
| "split_slash (c # cs) =
     (if c = CHR ''/'' then [] # split_slash cs
      else (case split_slash cs of
              [] \<Rightarrow> [[c]]
            | e # es \<Rightarrow> (c # e) # es))"

fun join_slash :: "string list \<Rightarrow> string" where
  "join_slash [] = []"
| "join_slash [e] = e"
| "join_slash (e # es) = e @ CHR ''/'' # join_slash es"

text \<open>
  One step of \<^verbatim>\<open>filepath.Clean\<close>: \<open>out\<close> is the cleaned path so far, last element
  first. Empty elements and \<^verbatim>\<open>.\<close> are dropped; \<^verbatim>\<open>..\<close> removes the element
  before it when there is one to remove, is dropped at the root, and is kept otherwise.
\<close>

fun clean_step :: "bool \<Rightarrow> string list \<Rightarrow> string \<Rightarrow> string list" where
  "clean_step rooted out e =
     (if e = [] \<or> e = ''.'' then out
      else if e = ''..'' then
        (case out of
           [] \<Rightarrow> (if rooted then [] else [''..''])
         | t # ts \<Rightarrow> (if t = ''..'' then ''..'' # t # ts else ts))
      else e # out)"

definition filepath_Clean :: "string \<Rightarrow> string" where
  "filepath_Clean path =
     (if path = [] then ''.''
      else let rooted = (hd path = CHR ''/'');
               out = rev (foldl (clean_step rooted) [] (split_slash path));
               res = (if rooted then ''/'' else []) @ join_slash out
           in if res = [] then ''.'' else res)"

text \<open>
  \<^verbatim>\<open>filepath.Join\<close> of two elements: the elements from the first non-empty one on
  are joined with a separator and cleaned; with no non-empty element the result is empty.
\<close>

definition filepath_Join :: "string \<Rightarrow> string \<Rightarrow> string" where
  "filepath_Join a b =
     (if a \<noteq> [] then filepath_Clean (a @ CHR ''/'' # b)
      else if b \<noteq> [] then filepath_Clean b
      else [])"

text \<open>
  \<^verbatim>\<open>filepath.Dir\<close>: everything up to and including the last separator, cleaned.
\<close>

definition filepath_Dir :: "string \<Rightarrow> string" where
  "filepath_Dir path =
     filepath_Clean (rev (dropWhile (\<lambda>c. c \<noteq> CHR ''/'') (rev path)))"

subsection \<open>fmt\<close>

text \<open>
  \<^verbatim>\<open>fmt.Sprintf\<close> with string operands. The format is copied up to a percent
  sign; \<^verbatim>\<open>%%\<close> prints one percent sign and takes no operand; \<^verbatim>\<open>%s\<close> and
  \<^verbatim>\<open>%v\<close> print the next operand, or \<^verbatim>\<open>%!s(MISSING)\<close> when none is left; a
  percent sign that ends the format prints \<^verbatim>\<open>%!(NOVERB)\<close>; operands left over at
  the end are reported as \<^verbatim>\<open>%!(EXTRA string=...)\<close>. Any other verb is printed in
  the bad-verb form \<^verbatim>\<open>%!c(string=...)\<close>, which is what Go prints for a verb that
  does not apply to strings; flags, widths, precisions, argument indexes, the verbs
  \<^verbatim>\<open>q\<close>, \<^verbatim>\<open>x\<close>, \<^verbatim>\<open>X\<close>, \<^verbatim>\<open>T\<close> and verbs outside ASCII are outside this
  model, and \<open>sprintf_modelled\<close> holds of the formats that stay inside it.
\<close>

fun extra_operands :: "string list \<Rightarrow> string" where
  "extra_operands [] = []"
| "extra_operands [a] = ''string='' @ a"
| "extra_operands (a # as) = ''string='' @ a @ '', '' @ extra_operands as"

fun doPrintf :: "string \<Rightarrow> string list \<Rightarrow> string" where
  "doPrintf [] [] = []"
| "doPrintf [] (a # as) = ''%!(EXTRA '' @ extra_operands (a # as) @ '')''"
| "doPrintf [c] as =
     (if c = CHR ''%'' then ''%!(NOVERB)'' @ doPrintf [] as else c # doPrintf [] as)"
| "doPrintf (c # v # fs) as =
     (if c \<noteq> CHR ''%'' then c # doPrintf (v # fs) as
      else if v = CHR ''%'' then CHR ''%'' # doPrintf fs as
      else (case as of
              [] \<Rightarrow> ''%!'' @ [v] @ ''(MISSING)'' @ doPrintf fs []
            | a # as' \<Rightarrow>
                (if v = CHR ''s'' \<or> v = CHR ''v'' then a @ doPrintf fs as'
                 else ''%!'' @ [v] @ ''(string='' @ a @ '')'' @ doPrintf fs as')))"

definition fmt_Sprintf :: "string \<Rightarrow> string list \<Rightarrow> string" where
  "fmt_Sprintf format as = doPrintf format as"

fun sprintf_modelled :: "string \<Rightarrow> bool" where
  "sprintf_modelled [] = True"
| "sprintf_modelled [c] = True"
| "sprintf_modelled (c # v # fs) =
     (if c \<noteq> CHR ''%'' then sprintf_modelled (v # fs)
      else (v = CHR ''%'' \<or> v = CHR ''s'' \<or> v = CHR ''v'') \<and> sprintf_modelled fs)"

subsection \<open>time\<close>

text \<open>
  A \<^verbatim>\<open>time.Time\<close> is an instant, counted here in nanoseconds since the Unix epoch;
  a \<^verbatim>\<open>time.Duration\<close> is a 64-bit count of nanoseconds. \<^verbatim>\<open>Time.Sub\<close> saturates
  at the largest and smallest duration instead of wrapping around. There is one clock: the
  wall clock and the monotonic clock of a \<^verbatim>\<open>time.Time\<close> are not told apart.
\<close>

type_synonym time = int
type_synonym duration = int

definition maxDuration :: duration where
  "maxDuration = 2 ^ 63 - 1"

definition minDuration :: duration where
  "minDuration = - (2 ^ 63)"

definition time_Sub :: "time \<Rightarrow> time \<Rightarrow> duration" where
  "time_Sub t u =
     (if t - u > maxDuration then maxDuration
      else if t - u < minDuration then minDuration
      else t - u)"

definition Second :: duration where
  "Second = 1000000000"

definition Hour :: duration where
  "Hour = 3600 * Second"

text \<open>\<^verbatim>\<open>Time.Unix\<close>: whole seconds since the epoch, rounded down.\<close>

definition time_Unix :: "time \<Rightarrow> int" where
  "time_Unix t = t div Second"

text \<open>
  The civil date of a day number (days since 1970-01-01) in the proleptic Gregorian
  calendar, as year, month and day.
\<close>

definition civil_from_days :: "int \<Rightarrow> int \<times> int \<times> int" where
  "civil_from_days days =
     (let z = days + 719468;
          era = z div 146097;
          doe = z - era * 146097;
          yoe = (doe - doe div 1460 + doe div 36524 - doe div 146096) div 365;
          doy = doe - (365 * yoe + yoe div 4 - yoe div 100);
          mp = (5 * doy + 2) div 153;
          d = doy - (153 * mp + 2) div 5 + 1;
          m = (if mp < 10 then mp + 3 else mp - 9);
          y = yoe + era * 400 + (if m \<le> 2 then 1 else 0)
      in (y, m, d))"

definition digit_char :: "nat \<Rightarrow> char" where
  "digit_char n = ''0123456789'' ! (n mod 10)"

fun digits :: "nat \<Rightarrow> string" where
  "digits n = (if n < 10 then [digit_char n] else digits (n div 10) @ [digit_char n])"

declare digits.simps [simp del]

text \<open>
  \<^verbatim>\<open>appendInt\<close> of package time: the decimal digits of \<open>x\<close>, padded with zeros on
  the left to \<open>width\<close>, after a minus sign when \<open>x\<close> is negative.
\<close>

definition appendInt :: "int \<Rightarrow> nat \<Rightarrow> string" where
  "appendInt x width =
     (let ds = digits (nat \<bar>x\<bar>)
      in (if x < 0 then ''-'' else []) @ replicate (width - length ds) CHR ''0'' @ ds)"

text \<open>
  \<^verbatim>\<open>time.Unix(sec, 0).Format("20060102150405")\<close>: year, month, day, hour, minute and
  second of the instant \<open>sec\<close> in a zone \<open>offset\<close> seconds east of UTC.
\<close>

definition format_20060102150405 :: "int \<Rightarrow> int \<Rightarrow> string" where
  "format_20060102150405 offset sec =
     (let abs = sec + offset;
          (y, m, d) = civil_from_days (abs div 86400);
          s = abs mod 86400
      in appendInt y 4 @ appendInt m 2 @ appendInt d 2 @
         appendInt (s div 3600) 2 @ appendInt (s mod 3600 div 60) 2 @ appendInt (s mod 60) 2)"

section \<open>The operating system\<close>

text \<open>
  The writer talks to the operating system through \<^verbatim>\<open>os.OpenFile\<close>,
  \<^verbatim>\<open>File.Close\<close>, \<^verbatim>\<open>File.Write\<close>, \<^verbatim>\<open>os.Rename\<close>, \<^verbatim>\<open>os.Remove\<close>,
  \<^verbatim>\<open>filepath.Walk\<close>, \<^verbatim>\<open>filepath.Glob\<close>, the clock and its mutex. Every call is
  recorded as an event, in order; what a call returns is decided by the environment, which
  may look at everything that happened before.
\<close>

type_synonym handle = nat

datatype error = OSError string | ErrShortWrite | ErrInvalid

datatype event =
    EvLock
  | EvUnlock
  | EvOpenFile string
  | EvClose handle
  | EvFileWrite handle string
  | EvRename string string
  | EvRemove string
  | EvWalk string
  | EvGlob string

text \<open>
  What \<^verbatim>\<open>filepath.Walk\<close> finds at a path: a file that is not a directory, with its
  name and modification time; a directory with its entries, in the order of their names
  (the order in which \<^verbatim>\<open>Walk\<close> visits them); a directory whose entries cannot be read;
  or a name for which \<^verbatim>\<open>Lstat\<close> fails.
\<close>

datatype fsnode =
    FileNode string time
  | DirNode string "fsnode list"
  | DirUnreadable string error
  | StatError string error

fun node_name :: "fsnode \<Rightarrow> string" where
  "node_name (FileNode n _) = n"
| "node_name (DirNode n _) = n"
| "node_name (DirUnreadable n _) = n"
| "node_name (StatError n _) = n"

fun IsDir :: "fsnode \<Rightarrow> bool" where
  "IsDir (DirNode _ _) = True"
| "IsDir (DirUnreadable _ _) = True"
| "IsDir _ = False"

record world =
  clock :: time
  zone :: "int \<Rightarrow> int"
  trace :: "event list"
  open_result :: "event list \<Rightarrow> string \<Rightarrow> error + handle"
  close_result :: "event list \<Rightarrow> handle \<Rightarrow> error option"
  write_result :: "event list \<Rightarrow> handle \<Rightarrow> string \<Rightarrow> nat \<times> error option"
  rename_result :: "event list \<Rightarrow> string \<Rightarrow> string \<Rightarrow> error option"
  remove_result :: "event list \<Rightarrow> string \<Rightarrow> error option"
  lstat_tree :: "event list \<Rightarrow> string \<Rightarrow> fsnode"
  glob_result :: "event list \<Rightarrow> string \<Rightarrow> error + string list"

definition emit :: "world \<Rightarrow> event \<Rightarrow> world" where
  "emit w ev = w\<lparr>trace := trace w @ [ev]\<rparr>"

text \<open>The events that happened between the world \<open>w\<close> and the later world \<open>w'\<close>.\<close>

definition new_events :: "world \<Rightarrow> world \<Rightarrow> event list" where
  "new_events w w' = drop (length (trace w)) (trace w')"

text \<open>\<^verbatim>\<open>var now = time.Now\<close>, and \<^verbatim>\<open>time.Since(t)\<close>, which is \<^verbatim>\<open>time.Now().Sub(t)\<close>.\<close>

definition now :: "world \<Rightarrow> time" where
  "now w = clock w"

definition time_Since :: "world \<Rightarrow> time \<Rightarrow> duration" where
  "time_Since w t = time_Sub (clock w) t"

definition os_OpenFile :: "world \<Rightarrow> string \<Rightarrow> world \<times> (error + handle)" where
  "os_OpenFile w name = (emit w (EvOpenFile name), open_result w (trace w) name)"

text \<open>Closing and writing through a nil \<^verbatim>\<open>*os.File\<close> return \<^verbatim>\<open>ErrInvalid\<close>.\<close>

definition File_Close :: "world \<Rightarrow> handle option \<Rightarrow> world \<times> error option" where
  "File_Close w f =
     (case f of
        None \<Rightarrow> (w, Some ErrInvalid)
      | Some h \<Rightarrow> (emit w (EvClose h), close_result w (trace w) h))"

text \<open>
  \<^verbatim>\<open>File.Write\<close> returns how many bytes went out, at most the length of the buffer,
  and an error whenever that is less than the whole buffer.
\<close>

definition File_Write :: "world \<Rightarrow> handle option \<Rightarrow> string \<Rightarrow> world \<times> (int \<times> error option)" where
  "File_Write w f b =
     (case f of
        None \<Rightarrow> (w, (0, Some ErrInvalid))
      | Some h \<Rightarrow>
          (let (k, e) = write_result w (trace w) h b;
               n = min k (length b);
               err = (case e of
                        Some x \<Rightarrow> Some x
                      | None \<Rightarrow> if n < length b then Some ErrShortWrite else None)
           in (emit w (EvFileWrite h b), (int n, err))))"

definition os_Rename :: "world \<Rightarrow> string \<Rightarrow> string \<Rightarrow> world \<times> error option" where
  "os_Rename w oldpath newpath =
     (emit w (EvRename oldpath newpath), rename_result w (trace w) oldpath newpath)"

definition os_Remove :: "world \<Rightarrow> string \<Rightarrow> world \<times> error option" where
  "os_Remove w name = (emit w (EvRemove name), remove_result w (trace w) name)"

definition filepath_Glob :: "world \<Rightarrow> string \<Rightarrow> world \<times> (error + string list)" where
  "filepath_Glob w pattern = (emit w (EvGlob pattern), glob_result w (trace w) pattern)"

subsection \<open>filepath.Walk\<close>

datatype walk_ret = WalkNil | SkipDir | WalkErr error

text \<open>
  \<^verbatim>\<open>walk\<close> calls the function on a node and, for a readable directory on which the
  function returned nil, goes through the entries. When the function returns
  \<^verbatim>\<open>SkipDir\<close> on an entry that is not a directory, the rest of the directory that
  holds it is skipped; \<^verbatim>\<open>SkipDir\<close> coming out of a directory only ends that
  directory; any other error ends the walk.
\<close>

fun walk :: "(world \<Rightarrow> string \<Rightarrow> fsnode \<Rightarrow> world \<times> walk_ret) \<Rightarrow>
      world \<Rightarrow> string \<Rightarrow> fsnode \<Rightarrow> world \<times> walk_ret"
and walk_entries :: "(world \<Rightarrow> string \<Rightarrow> fsnode \<Rightarrow> world \<times> walk_ret) \<Rightarrow>
      world \<Rightarrow> string \<Rightarrow> fsnode list \<Rightarrow> world \<times> walk_ret" where
  "walk fn w path (FileNode n t) = fn w path (FileNode n t)"
| "walk fn w path (StatError n e) = fn w path (StatError n e)"
| "walk fn w path (DirUnreadable n e) = fn w path (DirUnreadable n e)"
| "walk fn w path (DirNode n entries) =
     (case fn w path (DirNode n entries) of
        (w1, WalkNil) \<Rightarrow> walk_entries fn w1 path entries
      | (w1, r) \<Rightarrow> (w1, r))"
| "walk_entries fn w path [] = (w, WalkNil)"
| "walk_entries fn w path (c # cs) =
     (case walk fn w (filepath_Join path (node_name c)) c of
        (w1, WalkNil) \<Rightarrow> walk_entries fn w1 path cs
      | (w1, SkipDir) \<Rightarrow> if IsDir c then walk_entries fn w1 path cs else (w1, SkipDir)
      | (w1, WalkErr e) \<Rightarrow> (w1, WalkErr e))"

definition filepath_Walk ::
  "world \<Rightarrow> string \<Rightarrow> (world \<Rightarrow> string \<Rightarrow> fsnode \<Rightarrow> world \<times> walk_ret) \<Rightarrow> world \<times> error option" where
  "filepath_Walk w root fn =
     (case walk fn (emit w (EvWalk root)) root (lstat_tree w (trace w) root) of
        (w1, WalkErr e) \<Rightarrow> (w1, Some e)
      | (w1, _) \<Rightarrow> (w1, None))"

section \<open>The rotating log file\<close>

text \<open>
  \<^verbatim>\<open>type LogFile struct\<close>. The level filter belongs to another package and is taken
  as the predicate its \<^verbatim>\<open>Check\<close> method computes; \<^verbatim>\<open>FileInfo\<close> is a pointer that
  may be nil; \<^verbatim>\<open>BytesWritten\<close> is an \<^verbatim>\<open>int64\<close>, whose addition wraps around.
  The mutex \<^verbatim>\<open>acquire\<close> appears as the events \<open>EvLock\<close> and \<open>EvUnlock\<close>.
\<close>

record LogFile =
  logFilter :: "string \<Rightarrow> bool"
  fileName :: string
  fullName :: string
  rotateName :: string
  logPath :: string
  duration :: duration
  LastCreated :: time
  FileInfo :: "handle option"
  MaxBytes :: int
  BytesWritten :: int
  MaxFiles :: int

definition wrap64 :: "int \<Rightarrow> int" where
  "wrap64 x = (x + 2 ^ 63) mod 2 ^ 64 - 2 ^ 63"

definition fileNamePattern :: "LogFile \<Rightarrow> string" where
  "fileNamePattern l =
     (let fileExt = filepath_Ext (fileName l);
          fileExt = (if fileExt = [] then ''.log'' else fileExt)
      in strings_TrimSuffix (fileName l) fileExt @ ''%s'' @ fileExt)"

definition openNew :: "world \<Rightarrow> LogFile \<Rightarrow> world \<times> LogFile \<times> error option" where
  "openNew w l =
     (let pattern = fileNamePattern l;
          createTime = now w;
          l = l\<lparr>rotateName :=
                 fmt_Sprintf pattern
                   [''-'' @ format_20060102150405 (zone w (time_Unix createTime)) (time_Unix createTime)]\<rparr>;
          newfileName = fmt_Sprintf pattern [[]];
          newfilePath = filepath_Join (logPath l) newfileName;
          l = l\<lparr>fullName := newfilePath\<rparr>;
          l = l\<lparr>rotateName := filepath_Join (logPath l) (rotateName l)\<rparr>;
          (w, r) = os_OpenFile w newfilePath
      in case r of
           Inl err \<Rightarrow> (w, l, Some err)
         | Inr filePointer \<Rightarrow>
             (w, l\<lparr>FileInfo := Some filePointer, LastCreated := createTime, BytesWritten := 0\<rparr>, None))"

text \<open>The function that \<^verbatim>\<open>rotate\<close> hands to \<^verbatim>\<open>filepath.Walk\<close>.\<close>

definition thirty_days :: duration where
  "thirty_days = 30 * 24 * Hour"

fun rotate_walkFn :: "world \<Rightarrow> string \<Rightarrow> fsnode \<Rightarrow> world \<times> walk_ret" where
  "rotate_walkFn w path (StatError n err) = (w, WalkErr err)"
| "rotate_walkFn w path (DirNode n entries) = (w, WalkNil)"
| "rotate_walkFn w path (DirUnreadable n err) = (w, WalkNil)"
| "rotate_walkFn w path (FileNode n modTime) =
     (if \<not> strings_HasSuffix n ''.log'' then (w, WalkNil)
      else if time_Since w modTime > thirty_days then (fst (os_Remove w path), WalkNil)
      else (w, SkipDir))"

text \<open>
  The condition under which \<^verbatim>\<open>rotate\<close> rotates, and \<^verbatim>\<open>rotate\<close> itself, which
  is \<open>rotate_LogFile\<close> here because \<open>rotate\<close> is a function on lists.
\<close>

definition rotate_due :: "world \<Rightarrow> LogFile \<Rightarrow> bool" where
  "rotate_due w l =
     (let timeElapsed = time_Since w (LastCreated l)
      in (BytesWritten l \<ge> MaxBytes l \<and> MaxBytes l > 0) \<or> timeElapsed \<ge> duration l)"

definition rotate_LogFile :: "world \<Rightarrow> LogFile \<Rightarrow> world \<times> LogFile \<times> error option" where
  "rotate_LogFile w l =
     (if rotate_due w l then
        (let w = fst (File_Close w (FileInfo l));
             w = fst (os_Rename w (fullName l) (rotateName l));
             w = fst (filepath_Walk w (filepath_Dir (fullName l)) rotate_walkFn)
         in openNew w l)
      else (w, l, None))"

text \<open>
  \<^verbatim>\<open>pruneFiles\<close> indexes \<^verbatim>\<open>matches\<close> with a counter that runs up to
  \<^verbatim>\<open>len(matches) - MaxFiles\<close>; an index past the end of the slice panics.
\<close>

datatype prune_result = PruneNil | PruneErr error | PrunePanic

fun remove_stale :: "world \<Rightarrow> string list \<Rightarrow> nat \<Rightarrow> world \<times> prune_result" where
  "remove_stale w matches 0 = (w, PruneNil)"
| "remove_stale w [] (Suc stale) = (w, PrunePanic)"
| "remove_stale w (m # matches) (Suc stale) =
     (case os_Remove w m of
        (w, Some err) \<Rightarrow> (w, PruneErr err)
      | (w, None) \<Rightarrow> remove_stale w matches stale)"

definition pruneFiles :: "world \<Rightarrow> LogFile \<Rightarrow> world \<times> prune_result" where
  "pruneFiles w l =
     (if MaxFiles l = 0 then (w, PruneNil)
      else
        (let pattern = fileNamePattern l;
             globExpression = filepath_Join (logPath l) (fmt_Sprintf pattern [''*'']);
             (w, r) = filepath_Glob w globExpression
         in case r of
              Inl err \<Rightarrow> (w, PruneErr err)
            | Inr matches \<Rightarrow>
                (let stale = int (length matches) - MaxFiles l
                 in remove_stale w matches (nat stale))))"

text \<open>
  \<^verbatim>\<open>Write\<close>. The deferred \<^verbatim>\<open>Unlock\<close> runs last on every path that took the lock.
\<close>

definition Write :: "world \<Rightarrow> LogFile \<Rightarrow> string \<Rightarrow> world \<times> LogFile \<times> (int \<times> error option)" where
  "Write w l b =
     (if \<not> logFilter l b then (w, l, (0, None))
      else
        (let w = emit w EvLock;
             (w, l, err) = (if FileInfo l = None then openNew w l else (w, l, None))
         in case err of
              Some e \<Rightarrow> (emit w EvUnlock, l, (0, Some e))
            | None \<Rightarrow>
                (let (w, l, err) = rotate_LogFile w l
                 in case err of
                      Some e \<Rightarrow> (emit w EvUnlock, l, (0, Some e))
                    | None \<Rightarrow>
                        (let l = l\<lparr>BytesWritten := wrap64 (BytesWritten l + int (length b))\<rparr>;
                             (w, res) = File_Write w (FileInfo l) b
                         in (emit w EvUnlock, l, res)))))"

section \<open>Notions used to state the properties\<close>

text \<open>Several events at once.\<close>

definition emits :: "world \<Rightarrow> event list \<Rightarrow> world" where
  "emits w evs = w\<lparr>trace := trace w @ evs\<rparr>"

text \<open>
  The two paths that \<^verbatim>\<open>openNew\<close> computes: the path of the active file, and the path
  the active file is renamed to, stamped with the instant \<open>t\<close>.
\<close>

definition activePath :: "LogFile \<Rightarrow> string" where
  "activePath l = filepath_Join (logPath l) (fmt_Sprintf (fileNamePattern l) [[]])"

definition rotatedPath :: "world \<Rightarrow> LogFile \<Rightarrow> time \<Rightarrow> string" where
  "rotatedPath w l t =
     filepath_Join (logPath l)
       (fmt_Sprintf (fileNamePattern l)
          [''-'' @ format_20060102150405 (zone w (time_Unix t)) (time_Unix t)])"

text \<open>A rotation renames the active file once: rotations are counted by their renames.\<close>

fun is_rename :: "event \<Rightarrow> bool" where
  "is_rename (EvRename _ _) = True"
| "is_rename _ = False"

definition rotations :: "event list \<Rightarrow> nat" where
  "rotations evs = length (filter is_rename evs)"

fun is_glob :: "event \<Rightarrow> bool" where
  "is_glob (EvGlob _) = True"
| "is_glob _ = False"

text \<open>
  The files that are not directories below a node, each with the path under which
  \<^verbatim>\<open>Walk\<close> reaches it, its name and its modification time.
\<close>

fun tree_files :: "string \<Rightarrow> fsnode \<Rightarrow> (string \<times> string \<times> time) list" where
  "tree_files path (FileNode n t) = [(path, n, t)]"
| "tree_files path (DirNode n entries) =
     concat (map (\<lambda>c. tree_files (filepath_Join path (node_name c)) c) entries)"
| "tree_files path (DirUnreadable n e) = []"
| "tree_files path (StatError n e) = []"

text \<open>A log file that is older than thirty days, and one that is not.\<close>

fun stale_log :: "world \<Rightarrow> fsnode \<Rightarrow> bool" where
  "stale_log w (FileNode n t) = (strings_HasSuffix n ''.log'' \<and> time_Since w t > thirty_days)"
| "stale_log w _ = False"

fun fresh_log :: "world \<Rightarrow> fsnode \<Rightarrow> bool" where
  "fresh_log w (FileNode n t) = (strings_HasSuffix n ''.log'' \<and> \<not> time_Since w t > thirty_days)"
| "fresh_log w _ = False"

fun is_file :: "fsnode \<Rightarrow> bool" where
  "is_file (FileNode _ _) = True"
| "is_file _ = False"

subsection \<open>Worlds and log files for the examples\<close>

text \<open>
  A world at the instant \<open>t\<close> (UTC) in which every call succeeds: opening a file returns
  a fresh handle and every write takes the whole buffer. The walk finds \<open>tree\<close>.
\<close>

definition quiet_world :: "time \<Rightarrow> fsnode \<Rightarrow> world" where
  "quiet_world t tree =
     \<lparr>clock = t, zone = (\<lambda>_. 0), trace = [],
      open_result = (\<lambda>tr name. Inr (length tr)),
      close_result = (\<lambda>tr h. None),
      write_result = (\<lambda>tr h b. (length b, None)),
      rename_result = (\<lambda>tr a b. None),
      remove_result = (\<lambda>tr name. None),
      lstat_tree = (\<lambda>tr root. tree),
      glob_result = (\<lambda>tr pattern. Inr [])\<rparr>"

text \<open>2026-11-01 12:34:56 UTC.\<close>

definition t0 :: time where
  "t0 = 1793536496 * Second"

text \<open>
  A writer for \<^verbatim>\<open>logs/app.log\<close> that accepts every record, rotates after an hour or
  100 bytes, and has not opened its file yet.
\<close>

definition app_log :: LogFile where
  "app_log =
     \<lparr>logFilter = (\<lambda>b. True), fileName = ''app.log'', fullName = [], rotateName = [],
      logPath = ''logs'', duration = Hour, LastCreated = 0, FileInfo = None,
      MaxBytes = 100, BytesWritten = 0, MaxFiles = 0\<rparr>"

text \<open>The same writer with its file open since \<open>t0\<close> under handle 7.\<close>

definition app_log_open :: LogFile where
  "app_log_open =
     app_log\<lparr>fullName := ''logs/app.log'', rotateName := ''logs/app-20261101123456.log'',
       LastCreated := t0, FileInfo := Some 7\<rparr>"

text \<open>300 days before \<open>t0\<close>.\<close>

definition long_ago :: time where
  "long_ago = t0 - 300 * 24 * Hour"

definition logs_entries :: "fsnode list" where
  "logs_entries =
     [FileNode ''app-20250101000000.log'' long_ago,
      FileNode ''app-20261101123456.log'' t0,
      FileNode ''old.txt'' long_ago,
      FileNode ''zzz.log'' long_ago]"

definition logs_dir :: fsnode where
  "logs_dir = DirNode ''logs'' logs_entries"

text \<open>
  A world in which the disk is full: a write takes 20 bytes and then fails. And a record
  of 50 bytes.
\<close>

definition short_write_world :: world where
  "short_write_world =
     (quiet_world t0 logs_dir)
       \<lparr>write_result := (\<lambda>tr h b. (20, Some (OSError ''no space left on device'')))\<rparr>"

definition record50 :: string where
  "record50 = replicate 50 CHR ''x''"

text \<open>A writer like \<open>app_log\<close> whose filter rejects every record.\<close>

definition app_log_quiet :: LogFile where
  "app_log_quiet = app_log\<lparr>logFilter := (\<lambda>b. False)\<rparr>"

text \<open>The open writer with 60 bytes in its file, and with 100.\<close>

definition app_log_60 :: LogFile where
  "app_log_60 = app_log_open\<lparr>BytesWritten := 60\<rparr>"

definition app_log_100 :: LogFile where
  "app_log_100 = app_log_open\<lparr>BytesWritten := 100\<rparr>"

text \<open>
  \<^verbatim>\<open>filepath.Match\<close> for patterns made of plain characters and \<^verbatim>\<open>*\<close>, which stands
  for any run of characters other than the separator; \<^verbatim>\<open>?\<close>, character classes and
  escapes are outside this model, and \<open>match_modelled\<close> holds of the patterns that stay
  inside it.
\<close>

fun filepath_Match :: "string \<Rightarrow> string \<Rightarrow> bool" where
  "filepath_Match [] name = (name = [])"
| "filepath_Match (p # ps) [] = (p = CHR ''*'' \<and> filepath_Match ps [])"
| "filepath_Match (p # ps) (c # cs) =
     (if p = CHR ''*''
      then filepath_Match ps (c # cs) \<or> (c \<noteq> CHR ''/'' \<and> filepath_Match (p # ps) cs)
      else p = c \<and> filepath_Match ps cs)"

definition match_modelled :: "string \<Rightarrow> bool" where
  "match_modelled pattern =
     list_all (\<lambda>c. c \<noteq> CHR ''?'' \<and> c \<noteq> CHR ''['' \<and> c \<noteq> CHR 0x5C) pattern"

text \<open>
  \<^verbatim>\<open>filepath.Split\<close> cuts a path after its last separator, and \<^verbatim>\<open>cleanGlobPath\<close>
  prepares the directory part for \<^verbatim>\<open>Glob\<close>.
\<close>

definition filepath_Split :: "string \<Rightarrow> string \<times> string" where
  "filepath_Split path =
     (rev (dropWhile (\<lambda>c. c \<noteq> CHR ''/'') (rev path)),
      rev (takeWhile (\<lambda>c. c \<noteq> CHR ''/'') (rev path)))"

definition cleanGlobPath :: "string \<Rightarrow> string" where
  "cleanGlobPath path =
     (if path = [] then ''.'' else if path = ''/'' then ''/'' else butlast path)"

text \<open>
  What \<^verbatim>\<open>filepath.Glob\<close> returns for a pattern whose directory part has no
  metacharacter, in a file system with the one directory \<open>dirname\<close> that holds the
  files \<open>names\<close>, listed in the order of their names: the names that match the last
  element of the pattern, each joined to the directory (function \<^verbatim>\<open>glob\<close> of
  package filepath).
\<close>

definition glob_in_dir :: "string \<Rightarrow> string list \<Rightarrow> string \<Rightarrow> string list" where
  "glob_in_dir dirname names pattern =
     (let (dir, file) = filepath_Split pattern
      in if cleanGlobPath dir = dirname
         then map (filepath_Join dirname) (filter (filepath_Match file) names)
         else [])"

text \<open>
  A world whose directory \<^verbatim>\<open>logs\<close> holds three rotated files of \<open>app_log\<close> and its
  active file, and a writer that keeps two files. A world in which a file of another
  program lies beside one rotated file and the active file, and a writer that keeps one.
\<close>

definition glob_world :: world where
  "glob_world =
     (quiet_world t0 logs_dir)
       \<lparr>glob_result := (\<lambda>tr pattern.
           Inr (glob_in_dir ''logs''
                  [''app-20261029000000.log'', ''app-20261030000000.log'',
                   ''app-20261031000000.log'', ''app.log''] pattern))\<rparr>"

definition crowded_world :: world where
  "crowded_world =
     (quiet_world t0 logs_dir)
       \<lparr>glob_result := (\<lambda>tr pattern.
           Inr (glob_in_dir ''logs''
                  [''app-20261031000000.log'', ''app.log'', ''application.log''] pattern))\<rparr>"

definition app_log_keep2 :: LogFile where
  "app_log_keep2 = app_log\<lparr>MaxFiles := 2\<rparr>"

definition app_log_keep1 :: LogFile where
  "app_log_keep1 = app_log\<lparr>MaxFiles := 1\<rparr>"

text \<open>
  The paths of the log files below a node that are older than thirty days, and, for a
  directory that holds plain files only, the paths of the stale log files that come before
  its first log file that is not stale.
\<close>

definition stale_paths :: "world \<Rightarrow> string \<Rightarrow> fsnode \<Rightarrow> string list" where
  "stale_paths w path node =
     map fst
       (filter (\<lambda>(q, n, t). strings_HasSuffix n ''.log'' \<and> time_Since w t > thirty_days)
          (tree_files path node))"

definition stale_before_fresh :: "world \<Rightarrow> string \<Rightarrow> fsnode list \<Rightarrow> string list" where
  "stale_before_fresh w path entries =
     map (\<lambda>c. filepath_Join path (node_name c))
       (filter (stale_log w) (takeWhile (\<lambda>c. \<not> fresh_log w c) entries))"


text \<open>
  A writer for \<^verbatim>\<open>logs/app.txt\<close> with its file open since \<open>t0\<close>, and a directory
  with an old rotated file of that writer, a recent one, and an old file of another
  program.
\<close>

definition app_txt :: LogFile where
  "app_txt =
     app_log\<lparr>fileName := ''app.txt'', fullName := ''logs/app.txt'',
       rotateName := ''logs/app-20261101123456.txt'', LastCreated := t0, FileInfo := Some 7\<rparr>"

definition txt_entries :: "fsnode list" where
  "txt_entries =
     [FileNode ''app-20250101000000.txt'' long_ago,
      FileNode ''app-20261101123456.txt'' t0,
      FileNode ''notes.log'' long_ago]"

definition txt_dir :: fsnode where
  "txt_dir = DirNode ''logs'' txt_entries"

text \<open>
  A world at the instant \<open>t\<close> whose file system is mounted read-only: files cannot be
  opened for writing, renamed or removed.
\<close>

definition read_only_world :: "time \<Rightarrow> world" where
  "read_only_world t =
     (quiet_world t logs_dir)
       \<lparr>open_result := (\<lambda>tr name. Inl (OSError ''read-only file system'')),
        rename_result := (\<lambda>tr a b. Some (OSError ''read-only file system'')),
        remove_result := (\<lambda>tr name. Some (OSError ''read-only file system''))\<rparr>"

text \<open>
  The open writer after a rotation at \<open>t0 + Hour\<close> whose reopen failed: \<^verbatim>\<open>openNew\<close>
  has stamped \<^verbatim>\<open>rotateName\<close> with that instant.
\<close>

definition app_log_stuck :: LogFile where
  "app_log_stuck = app_log_open\<lparr>rotateName := ''logs/app-20261101133456.log''\<rparr>"

text \<open>A writer for a file with a percent sign in its name.\<close>

definition cpu_log :: LogFile where
  "cpu_log = app_log\<lparr>fileName := ''cpu%.log''\<rparr>"

text \<open>
  A world in which the first open succeeds, with handle 1, and every later one fails; and a
  new writer whose rotation interval was left at zero.
\<close>

definition flaky_world :: world where
  "flaky_world =
     (quiet_world t0 logs_dir)
       \<lparr>open_result := (\<lambda>tr name.
           if tr = [EvLock] then Inr 1 else Inl (OSError ''too many open files''))\<rparr>"

definition app_log_eager :: LogFile where
  "app_log_eager = app_log\<lparr>duration := 0\<rparr>"

section \<open>Basic facts\<close>

lemma emits_Nil [simp]: "emits w [] = w"
  by (simp add: emits_def)

lemma emits_emits [simp]: "emits (emits w xs) ys = emits w (xs @ ys)"
  by (simp add: emits_def)

lemma emit_emits: "emit w e = emits w [e]"
  by (simp add: emit_def emits_def)

lemma emits_fields [simp]:
  "clock (emits w evs) = clock w"
  "zone (emits w evs) = zone w"
  "trace (emits w evs) = trace w @ evs"
  "open_result (emits w evs) = open_result w"
  "close_result (emits w evs) = close_result w"
  "write_result (emits w evs) = write_result w"
  "rename_result (emits w evs) = rename_result w"
  "remove_result (emits w evs) = remove_result w"
  "lstat_tree (emits w evs) = lstat_tree w"
  "glob_result (emits w evs) = glob_result w"
  by (simp_all add: emits_def)

lemma new_events_emits [simp]: "new_events w (emits w evs) = evs"
  by (simp add: new_events_def)

lemma new_events_same [simp]: "new_events w w = []"
  by (simp add: new_events_def)

lemma now_emits [simp]: "now (emits w evs) = now w"
  by (simp add: now_def)

lemma time_Since_emits [simp]: "time_Since (emits w evs) t = time_Since w t"
  by (simp add: time_Since_def)

lemma rotate_due_emits [simp]: "rotate_due (emits w evs) l = rotate_due w l"
  by (simp add: rotate_due_def)

lemma rotatedPath_emits [simp]: "rotatedPath (emits w evs) l t = rotatedPath w l t"
  by (simp add: rotatedPath_def)

subsection \<open>What openNew, the walk and a rotation do to the world\<close>

lemma openNew_fail:
  assumes "open_result w (trace w) (activePath l) = Inl e"
  shows "openNew w l =
    (emits w [EvOpenFile (activePath l)],
     l\<lparr>fullName := activePath l, rotateName := rotatedPath w l (now w)\<rparr>, Some e)"
  using assms
  by (simp add: openNew_def Let_def os_OpenFile_def emit_emits activePath_def rotatedPath_def)

lemma openNew_ok:
  assumes "open_result w (trace w) (activePath l) = Inr h"
  shows "openNew w l =
    (emits w [EvOpenFile (activePath l)],
     l\<lparr>fullName := activePath l, rotateName := rotatedPath w l (now w),
       FileInfo := Some h, LastCreated := now w, BytesWritten := 0\<rparr>, None)"
  using assms
  by (simp add: openNew_def Let_def os_OpenFile_def emit_emits activePath_def rotatedPath_def)

lemma rotate_not_due: "\<not> rotate_due w l \<Longrightarrow> rotate_LogFile w l = (w, l, None)"
  by (simp add: rotate_LogFile_def)

lemma rotate_walkFn_world:
  "fst (rotate_walkFn w p n) = emits w (map EvRemove (if stale_log w n then [p] else []))"
  by (cases n) (simp_all add: os_Remove_def emit_emits)

lemma rotate_walkFn_ret:
  "snd (rotate_walkFn w p n) =
     (case n of StatError nm e \<Rightarrow> WalkErr e
      | FileNode nm t \<Rightarrow> if fresh_log w n then SkipDir else WalkNil
      | _ \<Rightarrow> WalkNil)"
  by (cases n) simp_all

lemma walk_emits:
  "\<exists>ps. fst (walk rotate_walkFn w p n) = emits w (map EvRemove ps)"
  "\<exists>ps. fst (walk_entries rotate_walkFn w p es) = emits w (map EvRemove ps)"
proof (induction rotate_walkFn w p n and rotate_walkFn w p es rule: walk_walk_entries.induct)
  case (1 w path n t)
  show ?case using rotate_walkFn_world[of w path "FileNode n t"] by (metis walk.simps(1))
next
  case (2 w path n e)
  show ?case using rotate_walkFn_world[of w path "StatError n e"] by (metis walk.simps(2))
next
  case (3 w path n e)
  show ?case using rotate_walkFn_world[of w path "DirUnreadable n e"] by (metis walk.simps(3))
next
  case (4 w path n entries)
  then show ?case by simp
next
  case (5 w path)
  have "fst (walk_entries rotate_walkFn w path []) = emits w (map EvRemove [])" by simp
  then show ?case by blast
next
  case (6 w path c cs)
  obtain w1 r where wr: "walk rotate_walkFn w (filepath_Join path (node_name c)) c = (w1, r)"
    by (cases "walk rotate_walkFn w (filepath_Join path (node_name c)) c")
  from "6.hyps"(1) wr obtain ps where ps: "w1 = emits w (map EvRemove ps)" by auto
  show ?case
  proof (cases "r = WalkNil \<or> (r = SkipDir \<and> IsDir c)")
    case True
    then have "\<exists>qs. fst (walk_entries rotate_walkFn w1 path cs) = emits w1 (map EvRemove qs)"
      using "6.hyps"(2)[OF wr[symmetric]] "6.hyps"(3)[OF wr[symmetric]] by auto
    then obtain qs where "fst (walk_entries rotate_walkFn w1 path cs) = emits w1 (map EvRemove qs)" ..
    then have "fst (walk_entries rotate_walkFn w path (c # cs)) = emits w (map EvRemove (ps @ qs))"
      using True wr ps by auto
    then show ?thesis by blast
  next
    case False
    then have "fst (walk_entries rotate_walkFn w path (c # cs)) = emits w (map EvRemove ps)"
      using wr ps by (cases r) auto
    then show ?thesis by blast
  qed
qed

lemma fst_filepath_Walk:
  "fst (filepath_Walk w root fn) = fst (walk fn (emits w [EvWalk root]) root (lstat_tree w (trace w) root))"
proof (cases "walk fn (emits w [EvWalk root]) root (lstat_tree w (trace w) root)")
  case (Pair w1 r)
  then show ?thesis by (cases r) (simp_all add: filepath_Walk_def emit_emits)
qed

lemma filepath_Walk_emits:
  "\<exists>ps. fst (filepath_Walk w root rotate_walkFn) = emits w (EvWalk root # map EvRemove ps)"
proof -
  obtain ps where "fst (walk rotate_walkFn (emits w [EvWalk root]) root (lstat_tree w (trace w) root))
      = emits (emits w [EvWalk root]) (map EvRemove ps)"
    using walk_emits(1) by blast
  then have "fst (filepath_Walk w root rotate_walkFn) = emits w (EvWalk root # map EvRemove ps)"
    by (simp add: fst_filepath_Walk)
  then show ?thesis by blast
qed

text \<open>A rotation, up to the point where the new file is opened.\<close>

lemma rotate_due_events:
  assumes "rotate_due w l"
  shows "\<exists>ps. rotate_LogFile w l =
    openNew (emits w ((case FileInfo l of None \<Rightarrow> [] | Some h \<Rightarrow> [EvClose h]) @
       EvRename (fullName l) (rotateName l) # EvWalk (filepath_Dir (fullName l)) # map EvRemove ps)) l"
proof -
  define w1 where "w1 = fst (File_Close w (FileInfo l))"
  define w2 where "w2 = fst (os_Rename w1 (fullName l) (rotateName l))"
  have w1: "w1 = emits w (case FileInfo l of None \<Rightarrow> [] | Some h \<Rightarrow> [EvClose h])"
    by (simp add: w1_def File_Close_def emit_emits split: option.splits)
  have w2: "w2 = emits w1 [EvRename (fullName l) (rotateName l)]"
    by (simp add: w2_def os_Rename_def emit_emits)
  obtain ps where ps: "fst (filepath_Walk w2 (filepath_Dir (fullName l)) rotate_walkFn)
      = emits w2 (EvWalk (filepath_Dir (fullName l)) # map EvRemove ps)"
    using filepath_Walk_emits by blast
  have "rotate_LogFile w l = openNew (fst (filepath_Walk w2 (filepath_Dir (fullName l)) rotate_walkFn)) l"
    using assms by (simp add: rotate_LogFile_def Let_def w1_def w2_def)
  then have "rotate_LogFile w l = openNew (emits w ((case FileInfo l of None \<Rightarrow> [] | Some h \<Rightarrow> [EvClose h]) @
       EvRename (fullName l) (rotateName l) # EvWalk (filepath_Dir (fullName l)) # map EvRemove ps)) l"
    using ps by (simp add: w2 w1)
  then show ?thesis by blast
qed

subsection \<open>The three ways through Write\<close>

lemma fst_File_Write: "fst (File_Write w (Some h) b) = emits w [EvFileWrite h b]"
  by (simp add: File_Write_def emit_emits Let_def split: prod.splits)

lemma snd_File_Write_emits:
  "snd (File_Write (emits w evs) (Some h) b) = snd (File_Write (w\<lparr>trace := trace w @ evs\<rparr>) (Some h) b)"
  by (simp add: emits_def)

lemma Write_accepts:
  assumes "logFilter l b"
  shows "Write w l b =
    (case (if FileInfo l = None then openNew (emits w [EvLock]) l else (emits w [EvLock], l, None)) of
       (w1, l1, Some e) \<Rightarrow> (emits w1 [EvUnlock], l1, (0, Some e))
     | (w1, l1, None) \<Rightarrow>
         (case rotate_LogFile w1 l1 of
            (w2, l2, Some e) \<Rightarrow> (emits w2 [EvUnlock], l2, (0, Some e))
          | (w2, l2, None) \<Rightarrow>
              (emits (fst (File_Write w2 (FileInfo l2) b)) [EvUnlock],
               l2\<lparr>BytesWritten := wrap64 (BytesWritten l2 + int (length b))\<rparr>,
               snd (File_Write w2 (FileInfo l2) b))))"
  using assms
  by (simp add: Write_def emit_emits Let_def split: prod.splits option.splits)

lemma Write_no_rotation:
  assumes "logFilter l b" "FileInfo l = Some h" "\<not> rotate_due w l"
  shows "Write w l b =
    (emits w [EvLock, EvFileWrite h b, EvUnlock],
     l\<lparr>BytesWritten := wrap64 (BytesWritten l + int (length b))\<rparr>,
     snd (File_Write (emits w [EvLock]) (Some h) b))"
  using assms by (simp add: Write_accepts rotate_not_due fst_File_Write)

lemma Write_rotation:
  assumes "logFilter l b" "FileInfo l = Some h" "rotate_due w l"
  obtains ps where "Write w l b =
    (case open_result w
            (trace w @ [EvLock, EvClose h, EvRename (fullName l) (rotateName l),
               EvWalk (filepath_Dir (fullName l))] @ map EvRemove ps) (activePath l) of
       Inl e \<Rightarrow>
         (emits w ([EvLock, EvClose h, EvRename (fullName l) (rotateName l),
               EvWalk (filepath_Dir (fullName l))] @ map EvRemove ps @
               [EvOpenFile (activePath l), EvUnlock]),
          l\<lparr>fullName := activePath l, rotateName := rotatedPath w l (now w)\<rparr>,
          (0, Some e))
     | Inr h' \<Rightarrow>
         (emits w ([EvLock, EvClose h, EvRename (fullName l) (rotateName l),
               EvWalk (filepath_Dir (fullName l))] @ map EvRemove ps @
               [EvOpenFile (activePath l), EvFileWrite h' b, EvUnlock]),
          l\<lparr>fullName := activePath l, rotateName := rotatedPath w l (now w),
            FileInfo := Some h', LastCreated := now w,
            BytesWritten := wrap64 (int (length b))\<rparr>,
          snd (File_Write
                 (emits w ([EvLock, EvClose h, EvRename (fullName l) (rotateName l),
                    EvWalk (filepath_Dir (fullName l))] @ map EvRemove ps @
                    [EvOpenFile (activePath l)])) (Some h') b)))"
proof -
  from rotate_due_events[of "emits w [EvLock]" l] assms(3) obtain ps where
    r: "rotate_LogFile (emits w [EvLock]) l =
        openNew (emits w ([EvLock, EvClose h, EvRename (fullName l) (rotateName l),
               EvWalk (filepath_Dir (fullName l))] @ map EvRemove ps)) l"
    using assms(2) by auto
  define pre where "pre = [EvLock, EvClose h, EvRename (fullName l) (rotateName l),
               EvWalk (filepath_Dir (fullName l))] @ map EvRemove ps"
  have W: "Write w l b =
     (case openNew (emits w pre) l of
            (w2, l2, Some e) \<Rightarrow> (emits w2 [EvUnlock], l2, (0, Some e))
          | (w2, l2, None) \<Rightarrow>
              (emits (fst (File_Write w2 (FileInfo l2) b)) [EvUnlock],
               l2\<lparr>BytesWritten := wrap64 (BytesWritten l2 + int (length b))\<rparr>,
               snd (File_Write w2 (FileInfo l2) b)))"
    using assms(1,2) r by (simp add: Write_accepts pre_def)
  have "Write w l b =
    (case open_result w (trace w @ pre) (activePath l) of
       Inl e \<Rightarrow>
         (emits w (pre @ [EvOpenFile (activePath l), EvUnlock]),
          l\<lparr>fullName := activePath l, rotateName := rotatedPath w l (now w)\<rparr>,
          (0, Some e))
     | Inr h' \<Rightarrow>
         (emits w (pre @ [EvOpenFile (activePath l), EvFileWrite h' b, EvUnlock]),
          l\<lparr>fullName := activePath l, rotateName := rotatedPath w l (now w),
            FileInfo := Some h', LastCreated := now w,
            BytesWritten := wrap64 (int (length b))\<rparr>,
          snd (File_Write (emits w (pre @ [EvOpenFile (activePath l)])) (Some h') b)))"
  proof (cases "open_result w (trace w @ pre) (activePath l)")
    case (Inl e)
    then have "openNew (emits w pre) l = (emits (emits w pre) [EvOpenFile (activePath l)],
       l\<lparr>fullName := activePath l, rotateName := rotatedPath (emits w pre) l (now (emits w pre))\<rparr>, Some e)"
      by (intro openNew_fail) simp
    then show ?thesis using Inl by (simp add: W)
  next
    case (Inr h')
    then have "openNew (emits w pre) l = (emits (emits w pre) [EvOpenFile (activePath l)],
       l\<lparr>fullName := activePath l, rotateName := rotatedPath (emits w pre) l (now (emits w pre)),
         FileInfo := Some h', LastCreated := now (emits w pre), BytesWritten := 0\<rparr>, None)"
      by (intro openNew_ok) simp
    then show ?thesis using Inr by (simp add: W fst_File_Write)
  qed
  then show thesis unfolding pre_def append_assoc by (rule that[of ps])
qed

section \<open>The filter gate\<close>

text \<open>
  Claim C4. A record that the level filter rejects makes \<^verbatim>\<open>Write\<close> return
  \<open>(0, nil)\<close> at once: the world is the same afterwards, so no event happened (the
  lock was not taken, no file was opened, written, renamed or removed), and the writer is
  the same, so no file was opened where none was and \<^verbatim>\<open>BytesWritten\<close> and every
  other field are untouched.
\<close>

theorem Write_rejected:
  "\<not> logFilter l b \<Longrightarrow> Write w l b = (w, l, (0, None))"
  by (simp add: Write_def)

theorem Write_rejected_witness:
  "\<not> logFilter app_log_quiet ''[DEBUG] x'' \<and>
   Write (quiet_world t0 logs_dir) app_log_quiet ''[DEBUG] x''
     = (quiet_world t0 logs_dir, app_log_quiet, (0, None)) \<and>
   FileInfo app_log_quiet = None \<and>
   trace (quiet_world t0 logs_dir) = []"
  using Write_rejected [of app_log_quiet "''[DEBUG] x''" "quiet_world t0 logs_dir"]
  by (simp add: app_log_quiet_def app_log_def quiet_world_def)

section \<open>The byte counter\<close>

text \<open>
  Claim C2 says that a write that goes out only in part adds to \<^verbatim>\<open>BytesWritten\<close>
  only the bytes that went out. \<^verbatim>\<open>Write\<close> adds the length of the whole record
  before it calls \<^verbatim>\<open>File.Write\<close>: with the file open, nothing written so far and
  a disk that takes 20 of 50 bytes, the caller gets 20 and the error, and
  \<^verbatim>\<open>BytesWritten\<close> is 50.
\<close>

theorem Write_short_counts_whole_record:
  "Write short_write_world app_log_open record50 =
     (emits short_write_world [EvLock, EvFileWrite 7 record50, EvUnlock],
      app_log_open\<lparr>BytesWritten := 50\<rparr>,
      (20, Some (OSError ''no space left on device'')))"
proof -
  have due: "\<not> rotate_due short_write_world app_log_open"
    by (simp add: rotate_due_def short_write_world_def app_log_open_def app_log_def
        quiet_world_def time_Since_def time_Sub_def maxDuration_def minDuration_def
        Hour_def Second_def)
  have res: "snd (File_Write (emits short_write_world [EvLock]) (Some 7) record50) =
      (20, Some (OSError ''no space left on device''))"
    by (simp add: File_Write_def short_write_world_def quiet_world_def record50_def)
  have cnt: "wrap64 (BytesWritten app_log_open + int (length record50)) = 50"
    by (simp add: wrap64_def app_log_open_def app_log_def record50_def)
  have "logFilter app_log_open record50" "FileInfo app_log_open = Some 7"
    by (simp_all add: app_log_open_def app_log_def)
  from Write_no_rotation [OF this due] show ?thesis
    by (simp add: res cnt)
qed

section \<open>Counting rotations; facts about the example writers\<close>

lemma wrap64_small: "0 \<le> x \<Longrightarrow> x < 2 ^ 63 \<Longrightarrow> wrap64 x = x"
  by (simp add: wrap64_def)

lemma rotations_simps [simp]:
  "rotations [] = 0"
  "rotations (EvRename a c # evs) = Suc (rotations evs)"
  "rotations (EvLock # evs) = rotations evs"
  "rotations (EvUnlock # evs) = rotations evs"
  "rotations (EvOpenFile p # evs) = rotations evs"
  "rotations (EvClose h # evs) = rotations evs"
  "rotations (EvFileWrite h b # evs) = rotations evs"
  "rotations (EvRemove p # evs) = rotations evs"
  "rotations (EvWalk p # evs) = rotations evs"
  "rotations (EvGlob p # evs) = rotations evs"
  "rotations (xs @ ys) = rotations xs + rotations ys"
  "rotations (map EvRemove ps) = 0"
  by (simp_all add: rotations_def)

lemma quiet_time_Since_t0: "time_Since (quiet_world t0 tree) t0 = 0"
  by (simp add: time_Since_def time_Sub_def quiet_world_def maxDuration_def minDuration_def)

lemma app_log_60_fields:
  "logFilter app_log_60 b" "FileInfo app_log_60 = Some 7" "MaxBytes app_log_60 = 100"
  "BytesWritten app_log_60 = 60" "LastCreated app_log_60 = t0" "duration app_log_60 = Hour"
  by (simp_all add: app_log_60_def app_log_open_def app_log_def)

lemma app_log_100_fields:
  "logFilter app_log_100 b" "FileInfo app_log_100 = Some 7" "MaxBytes app_log_100 = 100"
  "BytesWritten app_log_100 = 100" "LastCreated app_log_100 = t0" "duration app_log_100 = Hour"
  "fullName app_log_100 = ''logs/app.log''"
  "rotateName app_log_100 = ''logs/app-20261101123456.log''"
  by (simp_all add: app_log_100_def app_log_open_def app_log_def)

lemma quiet_open: "open_result (quiet_world t tree) tr name = Inr (length tr)"
  by (simp add: quiet_world_def)

lemma length_record50: "length record50 = 50"
  by (simp add: record50_def)

lemma quiet_not_due_60: "\<not> rotate_due (quiet_world t0 logs_dir) app_log_60"
  by (simp add: rotate_due_def app_log_60_def app_log_open_def app_log_def
        quiet_world_def time_Since_def time_Sub_def maxDuration_def minDuration_def
        Hour_def Second_def)


section \<open>Rotation by size\<close>

text \<open>
  The specification's example for the size trigger: 100 bytes at most, 60 written, and an
  accepted record of 50 bytes. \<^verbatim>\<open>rotate\<close> compares the bytes written so far with
  the limit, before the record is counted; 60 is below 100, so with the interval not over
  nothing is rotated: the record goes to the same file and \<^verbatim>\<open>BytesWritten\<close> ends
  at 110, not at 50.
\<close>

theorem size_trigger_60_counterexample:
  "logFilter app_log_60 record50 \<and> MaxBytes app_log_60 = 100 \<and> BytesWritten app_log_60 = 60 \<and>
   length record50 = 50 \<and>
   new_events (quiet_world t0 logs_dir) (fst (Write (quiet_world t0 logs_dir) app_log_60 record50))
     = [EvLock, EvFileWrite 7 record50, EvUnlock] \<and>
   BytesWritten (fst (snd (Write (quiet_world t0 logs_dir) app_log_60 record50))) = 110"
proof -
  have a: "logFilter app_log_60 record50" "FileInfo app_log_60 = Some 7"
    by (simp_all add: app_log_60_def app_log_open_def app_log_def)
  have cnt: "wrap64 (BytesWritten app_log_60 + int (length record50)) = 110"
    by (simp add: wrap64_def app_log_60_def record50_def)
  from Write_no_rotation [OF a quiet_not_due_60] show ?thesis
    by (simp add: cnt) (simp add: app_log_60_def app_log_open_def app_log_def record50_def)
qed

text \<open>
  Claim C1, amended. The size trigger looks at the bytes already written and acts before
  the incoming record is written. With a limit of 100 bytes and an accepted record of 50
  bytes: when 60 bytes are written and the interval is not over, \<^verbatim>\<open>Write\<close> does
  not rotate, writes to the open file and leaves \<^verbatim>\<open>BytesWritten\<close> at 110; when
  100 bytes or more are written, \<^verbatim>\<open>Write\<close> first rotates (it closes the file,
  renames it from \<^verbatim>\<open>fullName\<close> to the stamped \<^verbatim>\<open>rotateName\<close>, walks the
  directory and opens a new active file) and then writes the 50 bytes to the new file,
  which leaves \<^verbatim>\<open>BytesWritten\<close> at 50.
\<close>

theorem size_trigger_counts_bytes_already_written:
  assumes "logFilter l b" and "FileInfo l = Some h" and "MaxBytes l = 100" and "length b = 50"
  shows "(BytesWritten l = 60 \<and> time_Since w (LastCreated l) < duration l \<longrightarrow>
            new_events w (fst (Write w l b)) = [EvLock, EvFileWrite h b, EvUnlock] \<and>
            BytesWritten (fst (snd (Write w l b))) = 110) \<and>
         (BytesWritten l \<ge> 100 \<and> (\<forall>tr e. open_result w tr (activePath l) \<noteq> Inl e) \<longrightarrow>
            (\<exists>ps h'. new_events w (fst (Write w l b)) =
                [EvLock, EvClose h, EvRename (fullName l) (rotateName l),
                 EvWalk (filepath_Dir (fullName l))] @ map EvRemove ps @
                [EvOpenFile (activePath l), EvFileWrite h' b, EvUnlock]) \<and>
            BytesWritten (fst (snd (Write w l b))) = 50)"
proof (intro conjI impI)
  assume h: "BytesWritten l = 60 \<and> time_Since w (LastCreated l) < duration l"
  then have nd: "\<not> rotate_due w l"
    using assms(3) by (simp add: rotate_due_def)
  from Write_no_rotation [OF assms(1,2) nd]
  show "new_events w (fst (Write w l b)) = [EvLock, EvFileWrite h b, EvUnlock]"
    by simp
  from Write_no_rotation [OF assms(1,2) nd]
  show "BytesWritten (fst (snd (Write w l b))) = 110"
    using h assms(4) by (simp add: wrap64_def)
next
  assume h: "BytesWritten l \<ge> 100 \<and> (\<forall>tr e. open_result w tr (activePath l) \<noteq> Inl e)"
  then have due: "rotate_due w l"
    using assms(3) by (simp add: rotate_due_def)
  from Write_rotation [OF assms(1,2) due] obtain ps where
    W: "Write w l b =
    (case open_result w
            (trace w @ [EvLock, EvClose h, EvRename (fullName l) (rotateName l),
               EvWalk (filepath_Dir (fullName l))] @ map EvRemove ps) (activePath l) of
       Inl e \<Rightarrow>
         (emits w ([EvLock, EvClose h, EvRename (fullName l) (rotateName l),
               EvWalk (filepath_Dir (fullName l))] @ map EvRemove ps @
               [EvOpenFile (activePath l), EvUnlock]),
          l\<lparr>fullName := activePath l, rotateName := rotatedPath w l (now w)\<rparr>,
          (0, Some e))
     | Inr h' \<Rightarrow>
         (emits w ([EvLock, EvClose h, EvRename (fullName l) (rotateName l),
               EvWalk (filepath_Dir (fullName l))] @ map EvRemove ps @
               [EvOpenFile (activePath l), EvFileWrite h' b, EvUnlock]),
          l\<lparr>fullName := activePath l, rotateName := rotatedPath w l (now w),
            FileInfo := Some h', LastCreated := now w,
            BytesWritten := wrap64 (int (length b))\<rparr>,
          snd (File_Write
                 (emits w ([EvLock, EvClose h, EvRename (fullName l) (rotateName l),
                    EvWalk (filepath_Dir (fullName l))] @ map EvRemove ps @
                    [EvOpenFile (activePath l)])) (Some h') b)))" .
  obtain h' where o: "open_result w
            (trace w @ [EvLock, EvClose h, EvRename (fullName l) (rotateName l),
               EvWalk (filepath_Dir (fullName l))] @ map EvRemove ps) (activePath l) = Inr h'"
    using h by (cases "open_result w
            (trace w @ [EvLock, EvClose h, EvRename (fullName l) (rotateName l),
               EvWalk (filepath_Dir (fullName l))] @ map EvRemove ps) (activePath l)") auto
  have "new_events w (fst (Write w l b)) =
                [EvLock, EvClose h, EvRename (fullName l) (rotateName l),
                 EvWalk (filepath_Dir (fullName l))] @ map EvRemove ps @
                [EvOpenFile (activePath l), EvFileWrite h' b, EvUnlock]"
    using o by (simp add: W)
  then show "\<exists>ps h'. new_events w (fst (Write w l b)) =
                [EvLock, EvClose h, EvRename (fullName l) (rotateName l),
                 EvWalk (filepath_Dir (fullName l))] @ map EvRemove ps @
                [EvOpenFile (activePath l), EvFileWrite h' b, EvUnlock]"
    by blast
  show "BytesWritten (fst (snd (Write w l b))) = 50"
    using assms(4) o by (simp add: W wrap64_def)
qed

theorem size_trigger_counts_bytes_already_written_witness:
  "logFilter app_log_60 record50 \<and> FileInfo app_log_60 = Some 7 \<and> MaxBytes app_log_60 = 100 \<and>
   length record50 = 50 \<and> BytesWritten app_log_60 = 60 \<and>
   time_Since (quiet_world t0 logs_dir) (LastCreated app_log_60) < duration app_log_60 \<and>
   new_events (quiet_world t0 logs_dir) (fst (Write (quiet_world t0 logs_dir) app_log_60 record50))
     = [EvLock, EvFileWrite 7 record50, EvUnlock] \<and>
   BytesWritten (fst (snd (Write (quiet_world t0 logs_dir) app_log_60 record50))) = 110 \<and>
   logFilter app_log_100 record50 \<and> FileInfo app_log_100 = Some 7 \<and> MaxBytes app_log_100 = 100 \<and>
   BytesWritten app_log_100 \<ge> 100 \<and>
   (\<forall>tr e. open_result (quiet_world t0 logs_dir) tr (activePath app_log_100) \<noteq> Inl e) \<and>
   (\<exists>ps h'. new_events (quiet_world t0 logs_dir) (fst (Write (quiet_world t0 logs_dir) app_log_100 record50)) =
       [EvLock, EvClose 7, EvRename ''logs/app.log'' ''logs/app-20261101123456.log'',
        EvWalk (filepath_Dir ''logs/app.log'')] @ map EvRemove ps @
       [EvOpenFile (activePath app_log_100), EvFileWrite h' record50, EvUnlock]) \<and>
   BytesWritten (fst (snd (Write (quiet_world t0 logs_dir) app_log_100 record50))) = 50"
  using size_trigger_counts_bytes_already_written
          [of app_log_60 record50 7 "quiet_world t0 logs_dir"]
        size_trigger_counts_bytes_already_written
          [of app_log_100 record50 7 "quiet_world t0 logs_dir"]
  by (simp add: app_log_60_fields app_log_100_fields quiet_time_Since_t0 quiet_open
      length_record50 Hour_def Second_def)

section \<open>The events of a rotation and of a Write\<close>

lemma glob_free_simps [simp]:
  "filter is_glob (map EvRemove ps) = []"
  by (induction ps) simp_all

lemma fst_openNew: "fst (openNew w l) = emits w [EvOpenFile (activePath l)]"
  by (cases "open_result w (trace w) (activePath l)") (simp_all add: openNew_fail openNew_ok)

lemma fst_File_Write_any:
  "fst (File_Write w f b) = emits w (case f of None \<Rightarrow> [] | Some h \<Rightarrow> [EvFileWrite h b])"
  by (cases f) (simp_all add: fst_File_Write, simp add: File_Write_def)

lemma rotate_world:
  obtains evs where "fst (rotate_LogFile w l) = emits w evs"
    and "rotations evs = (if rotate_due w l then 1 else 0)"
    and "filter is_glob evs = []"
proof (cases "rotate_due w l")
  case True
  from rotate_due_events [OF True] obtain ps where
    r: "rotate_LogFile w l =
      openNew (emits w ((case FileInfo l of None \<Rightarrow> [] | Some h \<Rightarrow> [EvClose h]) @
       EvRename (fullName l) (rotateName l) # EvWalk (filepath_Dir (fullName l)) # map EvRemove ps)) l"
    by blast
  let ?evs = "(case FileInfo l of None \<Rightarrow> [] | Some h \<Rightarrow> [EvClose h]) @
       EvRename (fullName l) (rotateName l) # EvWalk (filepath_Dir (fullName l)) # map EvRemove ps
       @ [EvOpenFile (activePath l)]"
  have 1: "fst (rotate_LogFile w l) = emits w ?evs"
    by (simp add: r fst_openNew)
  have 2: "rotations ?evs = (if rotate_due w l then 1 else 0)"
    using True by (simp split: option.splits)
  have 3: "filter is_glob ?evs = []"
    by (simp split: option.splits)
  from 1 2 3 show thesis by (rule that)
next
  case False
  have 1: "fst (rotate_LogFile w l) = emits w []"
    using False by (simp add: rotate_not_due)
  have 2: "rotations [] = (if rotate_due w l then 1 else 0)"
    using False by simp
  have 3: "filter is_glob [] = []" by simp
  from 1 2 3 show thesis by (rule that)
qed

text \<open>The events of an accepted Write, whatever happens on its way.\<close>

lemma Write_world_from:
  assumes "logFilter l b"
    and "(if FileInfo l = None then openNew (emits w [EvLock]) l else (emits w [EvLock], l, None))
           = (emits w pre, l1, r)"
    and "rotations pre = 0" and "filter is_glob pre = []"
  obtains evs where "fst (Write w l b) = emits w evs"
    and "rotations evs = (if r = None \<and> rotate_due w l1 then 1 else 0)"
    and "filter is_glob evs = []"
proof (cases r)
  case (Some e)
  have 1: "fst (Write w l b) = emits w (pre @ [EvUnlock])"
    using assms(1,2) Some by (simp add: Write_accepts)
  have 2: "rotations (pre @ [EvUnlock]) = (if r = None \<and> rotate_due w l1 then 1 else 0)"
    using Some assms(3) by simp
  have 3: "filter is_glob (pre @ [EvUnlock]) = []"
    using assms(4) by simp
  from 1 2 3 show thesis by (rule that)
next
  case None
  obtain evs where e: "fst (rotate_LogFile (emits w pre) l1) = emits (emits w pre) evs"
    "rotations evs = (if rotate_due (emits w pre) l1 then 1 else 0)" "filter is_glob evs = []"
    by (rule rotate_world)
  obtain w2 l2 r2 where rr: "rotate_LogFile (emits w pre) l1 = (w2, l2, r2)"
    by (cases "rotate_LogFile (emits w pre) l1") auto
  have w2: "w2 = emits w (pre @ evs)" using e(1) rr by simp
  let ?tl = "(case r2 of Some e \<Rightarrow> [] | None \<Rightarrow>
       (case FileInfo l2 of None \<Rightarrow> [] | Some h \<Rightarrow> [EvFileWrite h b])) @ [EvUnlock]"
  have 1: "fst (Write w l b) = emits w (pre @ evs @ ?tl)"
    using assms(1,2) None rr w2
    by (simp add: Write_accepts fst_File_Write_any split: option.splits)
  have 2: "rotations (pre @ evs @ ?tl) = (if r = None \<and> rotate_due w l1 then 1 else 0)"
    using None assms(3) e(2) by (simp split: option.splits)
  have 3: "filter is_glob (pre @ evs @ ?tl) = []"
    using assms(4) e(3) by (simp split: option.splits)
  from 1 2 3 show thesis by (rule that)
qed

lemma Write_world_open:
  assumes "logFilter l b" and "FileInfo l = Some h"
  obtains evs where "fst (Write w l b) = emits w evs"
    and "rotations evs = (if rotate_due w l then 1 else 0)"
    and "filter is_glob evs = []"
proof -
  have eq: "(if FileInfo l = None then openNew (emits w [EvLock]) l else (emits w [EvLock], l, None))
           = (emits w [EvLock], l, None)"
    using assms(2) by simp
  have p1: "rotations [EvLock] = 0" by simp
  have p2: "filter is_glob [EvLock] = []" by simp
  show thesis
  proof (rule Write_world_from [OF assms(1) eq p1 p2])
    fix evs
    assume a: "fst (Write w l b) = emits w evs"
      "rotations evs = (if (None :: error option) = None \<and> rotate_due w l then 1 else 0)"
      "filter is_glob evs = []"
    from a(2) have "rotations evs = (if rotate_due w l then 1 else 0)" by simp
    with a(1) show thesis using a(3) by (rule that)
  qed
qed

lemma time_Sub_self [simp]: "time_Sub t t = 0"
  by (simp add: time_Sub_def maxDuration_def minDuration_def)

lemma rotate_due_fresh:
  "rotate_due w (l\<lparr>fullName := f, rotateName := r, FileInfo := fi, LastCreated := now w, BytesWritten := 0\<rparr>)
     = (duration l \<le> 0)"
  by (auto simp add: rotate_due_def time_Since_def now_def)

lemma Write_world_lazy:
  assumes "logFilter l b" and "FileInfo l = None"
  obtains evs where "fst (Write w l b) = emits w evs"
    and "rotations evs =
          (case open_result w (trace w @ [EvLock]) (activePath l) of
             Inl e \<Rightarrow> 0
           | Inr h \<Rightarrow> if duration l \<le> 0 then 1 else 0)"
    and "filter is_glob evs = []"
proof (cases "open_result w (trace w @ [EvLock]) (activePath l)")
  case (Inl e)
  then have "openNew (emits w [EvLock]) l = (emits (emits w [EvLock]) [EvOpenFile (activePath l)],
     l\<lparr>fullName := activePath l, rotateName := rotatedPath (emits w [EvLock]) l (now (emits w [EvLock]))\<rparr>, Some e)"
    by (intro openNew_fail) simp
  then have "(if FileInfo l = None then openNew (emits w [EvLock]) l else (emits w [EvLock], l, None))
     = (emits w [EvLock, EvOpenFile (activePath l)],
        l\<lparr>fullName := activePath l, rotateName := rotatedPath w l (now w)\<rparr>, Some e)"
    using assms(2) by simp
  note eq = this
  have p1: "rotations [EvLock, EvOpenFile (activePath l)] = 0" by simp
  have p2: "filter is_glob [EvLock, EvOpenFile (activePath l)] = []" by simp
  show thesis
  proof (rule Write_world_from [OF assms(1) eq p1 p2])
    fix evs
    assume a: "fst (Write w l b) = emits w evs"
      "rotations evs = (if Some e = None \<and>
        rotate_due w (l\<lparr>fullName := activePath l, rotateName := rotatedPath w l (now w)\<rparr>) then 1 else 0)"
      "filter is_glob evs = []"
    from a(2) have "rotations evs =
          (case open_result w (trace w @ [EvLock]) (activePath l) of
             Inl e \<Rightarrow> 0
           | Inr h \<Rightarrow> if duration l \<le> 0 then 1 else 0)"
      using Inl by simp
    with a(1) show thesis using a(3) by (rule that)
  qed
next
  case (Inr h)
  then have "openNew (emits w [EvLock]) l = (emits (emits w [EvLock]) [EvOpenFile (activePath l)],
     l\<lparr>fullName := activePath l, rotateName := rotatedPath (emits w [EvLock]) l (now (emits w [EvLock])),
       FileInfo := Some h, LastCreated := now (emits w [EvLock]), BytesWritten := 0\<rparr>, None)"
    by (intro openNew_ok) simp
  then have "(if FileInfo l = None then openNew (emits w [EvLock]) l else (emits w [EvLock], l, None))
     = (emits w [EvLock, EvOpenFile (activePath l)],
        l\<lparr>fullName := activePath l, rotateName := rotatedPath w l (now w),
          FileInfo := Some h, LastCreated := now w, BytesWritten := 0\<rparr>, None)"
    using assms(2) by simp
  note eq = this
  have p1: "rotations [EvLock, EvOpenFile (activePath l)] = 0" by simp
  have p2: "filter is_glob [EvLock, EvOpenFile (activePath l)] = []" by simp
  show thesis
  proof (rule Write_world_from [OF assms(1) eq p1 p2])
    fix evs
    assume a: "fst (Write w l b) = emits w evs"
      "rotations evs = (if (None :: error option) = None \<and>
        rotate_due w (l\<lparr>fullName := activePath l, rotateName := rotatedPath w l (now w),
          FileInfo := Some h, LastCreated := now w, BytesWritten := 0\<rparr>) then 1 else 0)"
      "filter is_glob evs = []"
    from a(2) have "rotations evs =
          (case open_result w (trace w @ [EvLock]) (activePath l) of
             Inl e \<Rightarrow> 0
           | Inr h \<Rightarrow> if duration l \<le> 0 then 1 else 0)"
      using Inr by (simp add: rotate_due_fresh)
    with a(1) show thesis using a(3) by (rule that)
  qed
qed


lemma app_log_open_fields:
  "logFilter app_log_open b" "FileInfo app_log_open = Some 7" "MaxBytes app_log_open = 100"
  "BytesWritten app_log_open = 0" "LastCreated app_log_open = t0" "duration app_log_open = Hour"
  "fullName app_log_open = ''logs/app.log''"
  "rotateName app_log_open = ''logs/app-20261101123456.log''"
  by (simp_all add: app_log_open_def app_log_def)

lemma quiet_clock [simp]: "clock (quiet_world t tree) = t"
  by (simp add: quiet_world_def)

section \<open>When a Write rotates\<close>





section \<open>Retention by count\<close>

text \<open>
  The loop of \<^verbatim>\<open>pruneFiles\<close>: asked for no more removals than there are matches, it
  calls \<^verbatim>\<open>os.Remove\<close> on the matches in their order, stops at the first failure, and
  does not panic.
\<close>

lemma remove_stale_events:
  assumes "k \<le> length ms"
  shows "\<exists>j\<le>k. fst (remove_stale w ms k) = emits w (map EvRemove (take j ms)) \<and>
           snd (remove_stale w ms k) \<noteq> PrunePanic \<and>
           (snd (remove_stale w ms k) = PruneNil \<longrightarrow> j = k) \<and>
           ((\<forall>tr p. remove_result w tr p = None) \<longrightarrow> snd (remove_stale w ms k) = PruneNil)"
  using assms
proof (induction ms arbitrary: w k)
  case Nil
  then have "k = 0" by simp
  then show ?case by simp
next
  case (Cons m ms)
  show ?case
  proof (cases k)
    case 0
    then show ?thesis by simp
  next
    case (Suc k')
    show ?thesis
    proof (cases "remove_result w (trace w) m")
      case (Some e)
      then have "fst (remove_stale w (m # ms) k) = emits w (map EvRemove (take 1 (m # ms)))"
        "snd (remove_stale w (m # ms) k) = PruneErr e"
        using Suc by (simp_all add: os_Remove_def emit_emits)
      then show ?thesis using Suc Some
        by (intro exI[of _ 1]) auto
    next
      case None
      have k': "k' \<le> length ms" using Cons.prems Suc by simp
      from Cons.IH [OF k', of "emits w [EvRemove m]"] obtain j where
        j: "j \<le> k'" "fst (remove_stale (emits w [EvRemove m]) ms k') =
               emits (emits w [EvRemove m]) (map EvRemove (take j ms))"
           "snd (remove_stale (emits w [EvRemove m]) ms k') \<noteq> PrunePanic"
           "snd (remove_stale (emits w [EvRemove m]) ms k') = PruneNil \<longrightarrow> j = k'"
           "(\<forall>tr p. remove_result (emits w [EvRemove m]) tr p = None) \<longrightarrow>
               snd (remove_stale (emits w [EvRemove m]) ms k') = PruneNil"
        by blast
      have step: "remove_stale w (m # ms) k = remove_stale (emits w [EvRemove m]) ms k'"
        using Suc None by (simp add: os_Remove_def emit_emits)
      show ?thesis
        unfolding step using j Suc by (intro exI[of _ "Suc j"]) simp
    qed
  qed
qed

lemma app_log_glob_expression:
  "filepath_Join (logPath app_log_keep2) (fmt_Sprintf (fileNamePattern app_log_keep2) [''*''])
     = ''logs/app*.log''"
  by code_simp

text \<open>
  \<^verbatim>\<open>pruneFiles\<close> is dormant: neither \<^verbatim>\<open>Write\<close> nor \<^verbatim>\<open>rotate\<close> ever calls
  \<^verbatim>\<open>filepath.Glob\<close>, which \<^verbatim>\<open>pruneFiles\<close> alone uses. On its own it does nothing
  when \<^verbatim>\<open>MaxFiles\<close> is 0. When \<^verbatim>\<open>MaxFiles\<close> is positive it asks \<^verbatim>\<open>Glob\<close> for
  the naming pattern with \<^verbatim>\<open>*\<close> in the place of the stamp and calls \<^verbatim>\<open>os.Remove\<close>
  on the first matches, in the order of the list, up to the number by which the list exceeds
  \<^verbatim>\<open>MaxFiles\<close>: it returns nil only after all of these, and it does return nil when no
  removal fails.
\<close>

lemma pruneFiles_dormant_and_by_glob_order:
  "filter is_glob (new_events w (fst (Write w l b))) = [] \<and>
   filter is_glob (new_events w (fst (rotate_LogFile w l))) = [] \<and>
   (MaxFiles l = 0 \<longrightarrow> pruneFiles w l = (w, PruneNil)) \<and>
   (MaxFiles l > 0 \<and>
    glob_result w (trace w)
      (filepath_Join (logPath l) (fmt_Sprintf (fileNamePattern l) [''*''])) = Inr matches \<longrightarrow>
      (\<exists>j \<le> length matches - nat (MaxFiles l).
         new_events w (fst (pruneFiles w l)) =
           EvGlob (filepath_Join (logPath l) (fmt_Sprintf (fileNamePattern l) [''*''])) #
           map EvRemove (take j matches) \<and>
         snd (pruneFiles w l) \<noteq> PrunePanic \<and>
         (snd (pruneFiles w l) = PruneNil \<longrightarrow> j = length matches - nat (MaxFiles l)) \<and>
         ((\<forall>tr p. remove_result w tr p = None) \<longrightarrow> snd (pruneFiles w l) = PruneNil)))"
proof (intro conjI impI)
  show "filter is_glob (new_events w (fst (Write w l b))) = []"
  proof (cases "logFilter l b")
    case False
    then show ?thesis by (simp add: Write_def)
  next
    case True
    show ?thesis
    proof (cases "FileInfo l")
      case None
      obtain evs where "fst (Write w l b) = emits w evs" "filter is_glob evs = []"
        by (rule Write_world_lazy [OF True None])
      then show ?thesis by simp
    next
      case (Some h)
      obtain evs where "fst (Write w l b) = emits w evs" "filter is_glob evs = []"
        by (rule Write_world_open [OF True Some])
      then show ?thesis by simp
    qed
  qed
next
  obtain evs where "fst (rotate_LogFile w l) = emits w evs" "filter is_glob evs = []"
    by (rule rotate_world)
  then show "filter is_glob (new_events w (fst (rotate_LogFile w l))) = []" by simp
next
  assume "MaxFiles l = 0"
  then show "pruneFiles w l = (w, PruneNil)" by (simp add: pruneFiles_def)
next
  let ?g = "filepath_Join (logPath l) (fmt_Sprintf (fileNamePattern l) [''*''])"
  let ?k = "length matches - nat (MaxFiles l)"
  assume a: "MaxFiles l > 0 \<and> glob_result w (trace w) ?g = Inr matches"
  have k: "nat (int (length matches) - MaxFiles l) = ?k" using a by linarith
  have p: "pruneFiles w l = remove_stale (emits w [EvGlob ?g]) matches ?k"
    using a by (simp add: pruneFiles_def Let_def filepath_Glob_def emit_emits k)
  have "?k \<le> length matches" by simp
  from remove_stale_events [OF this, of "emits w [EvGlob ?g]"] obtain j where
    j: "j \<le> ?k" "fst (remove_stale (emits w [EvGlob ?g]) matches ?k) =
               emits (emits w [EvGlob ?g]) (map EvRemove (take j matches))"
           "snd (remove_stale (emits w [EvGlob ?g]) matches ?k) \<noteq> PrunePanic"
           "snd (remove_stale (emits w [EvGlob ?g]) matches ?k) = PruneNil \<longrightarrow> j = ?k"
           "(\<forall>tr p. remove_result (emits w [EvGlob ?g]) tr p = None) \<longrightarrow>
               snd (remove_stale (emits w [EvGlob ?g]) matches ?k) = PruneNil"
    by blast
  show "\<exists>j \<le> ?k.
         new_events w (fst (pruneFiles w l)) = EvGlob ?g # map EvRemove (take j matches) \<and>
         snd (pruneFiles w l) \<noteq> PrunePanic \<and>
         (snd (pruneFiles w l) = PruneNil \<longrightarrow> j = ?k) \<and>
         ((\<forall>tr p. remove_result w tr p = None) \<longrightarrow> snd (pruneFiles w l) = PruneNil)"
    unfolding p using j by (intro exI[of _ j]) simp
qed

lemma glob_world_matches:
  "snd (filepath_Glob glob_world ''logs/app*.log'') =
     Inr [''logs/app-20261029000000.log'', ''logs/app-20261030000000.log'',
          ''logs/app-20261031000000.log'', ''logs/app.log'']"
  by code_simp

lemma glob_world_pruned:
  "new_events glob_world (fst (pruneFiles glob_world app_log_keep2)) =
     [EvGlob ''logs/app*.log'', EvRemove ''logs/app-20261029000000.log'',
      EvRemove ''logs/app-20261030000000.log'']"
  "snd (pruneFiles glob_world app_log_keep2) = PruneNil"
  by code_simp+

lemma crowded_world_matches:
  "snd (filepath_Glob crowded_world ''logs/app*.log'') =
     Inr [''logs/app-20261031000000.log'', ''logs/app.log'', ''logs/application.log'']"
  by code_simp

lemma crowded_world_pruned:
  "new_events crowded_world (fst (pruneFiles crowded_world app_log_keep1)) =
     [EvGlob ''logs/app*.log'', EvRemove ''logs/app-20261031000000.log'',
      EvRemove ''logs/app.log'']"
  "snd (pruneFiles crowded_world app_log_keep1) = PruneNil"
  by code_simp+

lemma keep_fields:
  "MaxFiles app_log_keep2 = 2" "MaxFiles app_log_keep1 = 1"
  "fileName app_log_keep2 = ''app.log''" "fileName app_log_keep1 = ''app.log''"
  by (simp_all add: app_log_keep2_def app_log_keep1_def app_log_def)

lemma glob_pattern_modelled: "match_modelled ''app*.log''"
  by code_simp

text \<open>
  Claim C9 says that \<^verbatim>\<open>pruneFiles\<close> lists the rotated files and deletes those in excess
  of \<^verbatim>\<open>MaxFiles\<close>, which the comment of the field calls the number of rotated files to
  keep. The glob expression is the naming pattern with \<^verbatim>\<open>*\<close> for the stamp,
  \<^verbatim>\<open>logs/app*.log\<close> for the writer of \<^verbatim>\<open>app.log\<close>, and \<^verbatim>\<open>*\<close> matches the
  empty stamp too: the active file is in the list, and so is any file whose name begins and
  ends like it. With three rotated files and \<^verbatim>\<open>MaxFiles\<close> 2 the list has four entries
  and two rotated files are removed, not the one in excess. With one rotated file, the active
  file and \<^verbatim>\<open>application.log\<close> in the directory and \<^verbatim>\<open>MaxFiles\<close> 1, the rotated
  file and the active file are removed.
\<close>

theorem pruneFiles_counts_the_active_file:
  "fileName app_log_keep2 = ''app.log'' \<and> MaxFiles app_log_keep2 = 2 \<and>
   match_modelled ''app*.log'' \<and>
   snd (filepath_Glob glob_world ''logs/app*.log'') =
     Inr [''logs/app-20261029000000.log'', ''logs/app-20261030000000.log'',
          ''logs/app-20261031000000.log'', ''logs/app.log''] \<and>
   new_events glob_world (fst (pruneFiles glob_world app_log_keep2)) =
     [EvGlob ''logs/app*.log'', EvRemove ''logs/app-20261029000000.log'',
      EvRemove ''logs/app-20261030000000.log''] \<and>
   snd (pruneFiles glob_world app_log_keep2) = PruneNil \<and>
   fileName app_log_keep1 = ''app.log'' \<and> MaxFiles app_log_keep1 = 1 \<and>
   snd (filepath_Glob crowded_world ''logs/app*.log'') =
     Inr [''logs/app-20261031000000.log'', ''logs/app.log'', ''logs/application.log''] \<and>
   new_events crowded_world (fst (pruneFiles crowded_world app_log_keep1)) =
     [EvGlob ''logs/app*.log'', EvRemove ''logs/app-20261031000000.log'',
      EvRemove ''logs/app.log''] \<and>
   snd (pruneFiles crowded_world app_log_keep1) = PruneNil"
  by (simp add: keep_fields glob_pattern_modelled glob_world_matches glob_world_pruned
      crowded_world_matches crowded_world_pruned)

section \<open>Retention by age\<close>

subsection \<open>What the walk removes\<close>

lemma stale_paths_emits [simp]: "stale_paths (emits w evs) p n = stale_paths w p n"
  by (simp add: stale_paths_def)

lemma stale_log_emits [simp]: "stale_log (emits w evs) = stale_log w"
proof
  fix c show "stale_log (emits w evs) c = stale_log w c" by (cases c) simp_all
qed

lemma fresh_log_emits [simp]: "fresh_log (emits w evs) = fresh_log w"
proof
  fix c show "fresh_log (emits w evs) c = fresh_log w c" by (cases c) simp_all
qed

lemma stale_before_fresh_emits [simp]:
  "stale_before_fresh (emits w evs) p es = stale_before_fresh w p es"
  by (simp add: stale_before_fresh_def)

lemma stale_paths_File:
  "stale_paths w p (FileNode n t) = (if stale_log w (FileNode n t) then [p] else [])"
  by (simp add: stale_paths_def)

lemma stale_paths_Dir:
  "set (stale_paths w p (DirNode n es)) =
     (\<Union>c\<in>set es. set (stale_paths w (filepath_Join p (node_name c)) c))"
  by (auto simp add: stale_paths_def)

lemma walk_removes_stale:
  "\<exists>ps. fst (walk rotate_walkFn w p n) = emits w (map EvRemove ps) \<and>
        set ps \<subseteq> set (stale_paths w p n)"
  "\<exists>ps. fst (walk_entries rotate_walkFn w p es) = emits w (map EvRemove ps) \<and>
        set ps \<subseteq> (\<Union>c\<in>set es. set (stale_paths w (filepath_Join p (node_name c)) c))"
proof (induction rotate_walkFn w p n and rotate_walkFn w p es rule: walk_walk_entries.induct)
  case (1 w path n t)
  have "fst (walk rotate_walkFn w path (FileNode n t)) =
          emits w (map EvRemove (if stale_log w (FileNode n t) then [path] else []))"
    using rotate_walkFn_world [of w path "FileNode n t"] by simp
  moreover have "set (if stale_log w (FileNode n t) then [path] else [])
      \<subseteq> set (stale_paths w path (FileNode n t))"
    by (simp add: stale_paths_File)
  ultimately show ?case by blast
next
  case (2 w path n e)
  have "fst (walk rotate_walkFn w path (StatError n e)) = emits w (map EvRemove [])" by simp
  then show ?case by (intro exI[of _ "[]"]) simp
next
  case (3 w path n e)
  have "fst (walk rotate_walkFn w path (DirUnreadable n e)) = emits w (map EvRemove [])" by simp
  then show ?case by (intro exI[of _ "[]"]) simp
next
  case (4 w path n entries)
  have "fst (walk rotate_walkFn w path (DirNode n entries)) =
          fst (walk_entries rotate_walkFn w path entries)" by simp
  with "4.hyps" [of w WalkNil] show ?case
    by (simp add: stale_paths_Dir)
next
  case (5 w path)
  have "fst (walk_entries rotate_walkFn w path []) = emits w (map EvRemove [])" by simp
  then show ?case by (intro exI[of _ "[]"]) simp
next
  case (6 w path c cs)
  let ?S = "\<lambda>c. set (stale_paths w (filepath_Join path (node_name c)) c)"
  obtain w1 r where wr: "walk rotate_walkFn w (filepath_Join path (node_name c)) c = (w1, r)"
    by (cases "walk rotate_walkFn w (filepath_Join path (node_name c)) c")
  from "6.hyps"(1) wr obtain ps where ps: "w1 = emits w (map EvRemove ps)" "set ps \<subseteq> ?S c"
    by auto
  show ?case
  proof (cases "r = WalkNil \<or> (r = SkipDir \<and> IsDir c)")
    case True
    then have "\<exists>qs. fst (walk_entries rotate_walkFn w1 path cs) = emits w1 (map EvRemove qs) \<and>
        set qs \<subseteq> (\<Union>c\<in>set cs. set (stale_paths w1 (filepath_Join path (node_name c)) c))"
      using "6.hyps"(2)[OF wr[symmetric]] "6.hyps"(3)[OF wr[symmetric]] by auto
    then obtain qs where qs: "fst (walk_entries rotate_walkFn w1 path cs) = emits w1 (map EvRemove qs)"
      "set qs \<subseteq> (\<Union>c\<in>set cs. ?S c)"
      using ps(1) by auto
    have "fst (walk_entries rotate_walkFn w path (c # cs)) = emits w (map EvRemove (ps @ qs))"
      using True wr ps(1) qs(1) by auto
    moreover have "set (ps @ qs) \<subseteq> (\<Union>c\<in>set (c # cs). ?S c)"
      using ps(2) qs(2) by auto
    ultimately show ?thesis by blast
  next
    case False
    then have "fst (walk_entries rotate_walkFn w path (c # cs)) = emits w (map EvRemove ps)"
      using wr ps(1) by (cases r) auto
    moreover have "set ps \<subseteq> (\<Union>c\<in>set (c # cs). ?S c)"
      using ps(2) by auto
    ultimately show ?thesis by blast
  qed
qed

lemma walk_entries_flat:
  assumes "list_all is_file es"
  shows "walk_entries rotate_walkFn w p es =
     (emits w (map EvRemove (stale_before_fresh w p es)),
      if list_ex (fresh_log w) es then SkipDir else WalkNil)"
  using assms
proof (induction es arbitrary: w)
  case Nil
  then show ?case by (simp add: stale_before_fresh_def)
next
  case (Cons c cs)
  then obtain n t where c: "c = FileNode n t" by (cases c) auto
  have cs: "list_all is_file cs" using Cons.prems by simp
  show ?case
  proof (cases "strings_HasSuffix n ''.log''")
    case False
    then show ?thesis using Cons.IH [OF cs, of w] c
      by (simp add: stale_before_fresh_def)
  next
    case True
    show ?thesis
    proof (cases "time_Since w t > thirty_days")
      case stale: True
      have step: "walk_entries rotate_walkFn w p (c # cs) =
          walk_entries rotate_walkFn (emits w [EvRemove (filepath_Join p n)]) p cs"
        using c True stale by (simp add: os_Remove_def emit_emits)
      have "stale_before_fresh w p (c # cs) = filepath_Join p n # stale_before_fresh w p cs"
        "list_ex (fresh_log w) (c # cs) = list_ex (fresh_log w) cs"
        using c True stale by (simp_all add: stale_before_fresh_def)
      then show ?thesis
        unfolding step using Cons.IH [OF cs, of "emits w [EvRemove (filepath_Join p n)]"]
        by simp
    next
      case False
      then show ?thesis using c True by (simp add: stale_before_fresh_def)
    qed
  qed
qed

lemma rotate_prunes:
  assumes "rotate_due w l"
    and "pre = (case FileInfo l of None \<Rightarrow> [] | Some h \<Rightarrow> [EvClose h]) @
               [EvRename (fullName l) (rotateName l)]"
    and "root = filepath_Dir (fullName l)"
    and "tree = lstat_tree w (trace w @ pre) root"
  obtains ps where
    "new_events w (fst (rotate_LogFile w l)) =
       pre @ EvWalk root # map EvRemove ps @ [EvOpenFile (activePath l)]"
    and "set ps \<subseteq> set (stale_paths w root tree)"
    and "\<forall>nm es. tree = DirNode nm es \<and> list_all is_file es \<longrightarrow>
           ps = stale_before_fresh w root es"
proof -
  define w3 where "w3 = emits w (pre @ [EvWalk root])"
  have w2: "fst (os_Rename (fst (File_Close w (FileInfo l))) (fullName l) (rotateName l)) = emits w pre"
    by (simp add: assms(2) File_Close_def os_Rename_def emit_emits split: option.splits)
  have r: "rotate_LogFile w l = openNew (fst (filepath_Walk (emits w pre) root rotate_walkFn)) l"
    using assms(1) by (simp add: rotate_LogFile_def Let_def w2 assms(3))
  have wk: "fst (filepath_Walk (emits w pre) root rotate_walkFn) = fst (walk rotate_walkFn w3 root tree)"
    by (simp add: fst_filepath_Walk w3_def assms(4))
  obtain ps where ps: "fst (walk rotate_walkFn w3 root tree) = emits w3 (map EvRemove ps)"
    "set ps \<subseteq> set (stale_paths w3 root tree)"
    using walk_removes_stale(1) by blast
  have 1: "new_events w (fst (rotate_LogFile w l)) =
       pre @ EvWalk root # map EvRemove ps @ [EvOpenFile (activePath l)]"
    by (simp add: r wk ps(1) fst_openNew) (simp add: w3_def)
  have 2: "set ps \<subseteq> set (stale_paths w root tree)"
    using ps(2) by (simp add: w3_def)
  have 3: "ps = stale_before_fresh w root es" if "tree = DirNode nm es" "list_all is_file es" for nm es
  proof -
    have "walk rotate_walkFn w3 root tree = walk_entries rotate_walkFn w3 root es"
      using that(1) by simp
    then have "fst (walk rotate_walkFn w3 root tree) = emits w3 (map EvRemove (stale_before_fresh w3 root es))"
      by (simp add: walk_entries_flat [OF that(2)])
    with ps(1) have "trace (emits w3 (map EvRemove ps)) =
        trace (emits w3 (map EvRemove (stale_before_fresh w3 root es)))" by simp
    then have "map EvRemove ps = map EvRemove (stale_before_fresh w3 root es)" by simp
    then have "ps = stale_before_fresh w3 root es"
      by (simp add: inj_map_eq_map inj_on_def)
    then show ?thesis by (simp add: w3_def)
  qed
  from 3 have 4: "\<forall>nm es. tree = DirNode nm es \<and> list_all is_file es \<longrightarrow>
           ps = stale_before_fresh w root es" by blast
  from 1 2 4 show thesis by (rule that)
qed

lemma fileNamePattern_MaxFiles [simp]: "fileNamePattern (l\<lparr>MaxFiles := k\<rparr>) = fileNamePattern l"
  by (simp add: fileNamePattern_def)

lemma activePath_MaxFiles [simp]: "activePath (l\<lparr>MaxFiles := k\<rparr>) = activePath l"
  by (simp add: activePath_def)

lemma rotate_due_MaxFiles [simp]: "rotate_due w (l\<lparr>MaxFiles := k\<rparr>) = rotate_due w l"
  by (simp add: rotate_due_def)

lemma fst_rotate_MaxFiles: "fst (rotate_LogFile w (l\<lparr>MaxFiles := k\<rparr>)) = fst (rotate_LogFile w l)"
  by (simp add: rotate_LogFile_def Let_def fst_openNew)

subsection \<open>The example directories\<close>

lemma app_txt_fields:
  "FileInfo app_txt = Some 7" "fullName app_txt = ''logs/app.txt''"
  "rotateName app_txt = ''logs/app-20261101123456.txt''" "fileName app_txt = ''app.txt''"
  "LastCreated app_txt = t0" "duration app_txt = Hour" "logPath app_txt = ''logs''"
  by (simp_all add: app_txt_def app_log_def)

lemma quiet_lstat_tree [simp]: "lstat_tree (quiet_world t tree) tr root = tree"
  by (simp add: quiet_world_def)

lemma quiet_trace [simp]: "trace (quiet_world t tree) = []"
  by (simp add: quiet_world_def)

lemma Dir_logs_app_txt: "filepath_Dir ''logs/app.txt'' = ''logs''"
  by code_simp

lemma Dir_logs_app_log: "filepath_Dir ''logs/app.log'' = ''logs''"
  by code_simp

lemma activePath_app_txt: "activePath app_txt = ''logs/app.txt''"
  by code_simp

lemma activePath_app_log_open: "activePath app_log_open = ''logs/app.log''"
  by code_simp

lemma due_after_an_hour:
  "rotate_due (quiet_world (t0 + Hour) tree) app_txt"
  "rotate_due (quiet_world (t0 + Hour) tree) app_log_open"
  by (simp_all add: rotate_due_def time_Since_def time_Sub_def app_txt_fields app_log_open_fields
      maxDuration_def minDuration_def Hour_def Second_def)

lemma txt_dir_pruned:
  "stale_before_fresh (quiet_world (t0 + Hour) txt_dir) ''logs'' txt_entries = [''logs/notes.log'']"
  by code_simp

lemma logs_dir_pruned:
  "stale_before_fresh (quiet_world (t0 + Hour) logs_dir) ''logs'' logs_entries
     = [''logs/app-20250101000000.log'']"
  by code_simp

lemma plain_entries: "list_all is_file txt_entries" "list_all is_file logs_entries"
  by (simp_all add: txt_entries_def logs_entries_def)

lemma old_txt_facts:
  "filepath_Ext (fileName app_txt) = ''.txt''"
  "filepath_Ext ''app-20250101000000.txt'' = ''.txt''"
  "time_Since (quiet_world (t0 + Hour) txt_dir) long_ago > thirty_days"
  by code_simp+

subsection \<open>Which files a rotation removes\<close>

text \<open>
  Every rotation closes and renames the active file, walks the directory of
  \<^verbatim>\<open>fullName\<close> and opens the new file; between the walk and the open it calls
  \<^verbatim>\<open>os.Remove\<close>, and on nothing but files that are not directories, whose name ends
  in \<^verbatim>\<open>.log\<close> and whose modification time lies more than thirty days back. In a
  directory of plain files the removed files are exactly the stale \<^verbatim>\<open>.log\<close> files that
  come, in the order of the names, before the first \<^verbatim>\<open>.log\<close> file that is not stale,
  where the scan of the directory stops. \<^verbatim>\<open>MaxFiles\<close> plays no part in any of this.
\<close>

lemma age_pruning_removes_stale_log_files:
  assumes "rotate_due w l"
    and "pre = (case FileInfo l of None \<Rightarrow> [] | Some h \<Rightarrow> [EvClose h]) @
               [EvRename (fullName l) (rotateName l)]"
    and "root = filepath_Dir (fullName l)"
    and "tree = lstat_tree w (trace w @ pre) root"
  shows "\<exists>ps. new_events w (fst (rotate_LogFile w l)) =
                pre @ EvWalk root # map EvRemove ps @ [EvOpenFile (activePath l)] \<and>
              set ps \<subseteq> set (stale_paths w root tree) \<and>
              (\<forall>nm es. tree = DirNode nm es \<and> list_all is_file es \<longrightarrow>
                 ps = stale_before_fresh w root es) \<and>
              fst (rotate_LogFile w (l\<lparr>MaxFiles := k\<rparr>)) = fst (rotate_LogFile w l)"
proof -
  obtain ps where ps: "new_events w (fst (rotate_LogFile w l)) =
       pre @ EvWalk root # map EvRemove ps @ [EvOpenFile (activePath l)]"
    "set ps \<subseteq> set (stale_paths w root tree)"
    "\<forall>nm es. tree = DirNode nm es \<and> list_all is_file es \<longrightarrow>
           ps = stale_before_fresh w root es"
    by (rule rotate_prunes [OF assms])
  have "new_events w (fst (rotate_LogFile w l)) =
                pre @ EvWalk root # map EvRemove ps @ [EvOpenFile (activePath l)] \<and>
              set ps \<subseteq> set (stale_paths w root tree) \<and>
              (\<forall>nm es. tree = DirNode nm es \<and> list_all is_file es \<longrightarrow>
                 ps = stale_before_fresh w root es) \<and>
              fst (rotate_LogFile w (l\<lparr>MaxFiles := k\<rparr>)) = fst (rotate_LogFile w l)"
    using ps by (simp add: fst_rotate_MaxFiles)
  then show ?thesis by (rule exI)
qed

text \<open>For the writer of \<^verbatim>\<open>logs/app.log\<close>, an hour after it opened its file:\<close>

lemma age_pruning_in_logs_dir:
  "rotate_due (quiet_world (t0 + Hour) logs_dir) app_log_open \<and>
   lstat_tree (quiet_world (t0 + Hour) logs_dir)
     (trace (quiet_world (t0 + Hour) logs_dir) @
      [EvClose 7, EvRename ''logs/app.log'' ''logs/app-20261101123456.log'']) ''logs'' = logs_dir \<and>
   new_events (quiet_world (t0 + Hour) logs_dir)
       (fst (rotate_LogFile (quiet_world (t0 + Hour) logs_dir) app_log_open)) =
     [EvClose 7, EvRename ''logs/app.log'' ''logs/app-20261101123456.log'', EvWalk ''logs'',
      EvRemove ''logs/app-20250101000000.log'', EvOpenFile ''logs/app.log''] \<and>
   set [''logs/app-20250101000000.log'']
     \<subseteq> set (stale_paths (quiet_world (t0 + Hour) logs_dir) ''logs'' logs_dir) \<and>
   fst (rotate_LogFile (quiet_world (t0 + Hour) logs_dir) (app_log_open\<lparr>MaxFiles := 5\<rparr>)) =
     fst (rotate_LogFile (quiet_world (t0 + Hour) logs_dir) app_log_open)"
proof -
  let ?w = "quiet_world (t0 + Hour) logs_dir"
  let ?pre = "[EvClose 7, EvRename ''logs/app.log'' ''logs/app-20261101123456.log'']"
  have pre: "?pre = (case FileInfo app_log_open of None \<Rightarrow> [] | Some h \<Rightarrow> [EvClose h]) @
               [EvRename (fullName app_log_open) (rotateName app_log_open)]"
    by (simp add: app_log_open_fields)
  have root: "''logs'' = filepath_Dir (fullName app_log_open)"
    by (simp add: app_log_open_fields Dir_logs_app_log)
  have tree: "logs_dir = lstat_tree ?w (trace ?w @ ?pre) ''logs''" by simp
  from age_pruning_removes_stale_log_files [OF due_after_an_hour(2) pre root tree, of 5]
  obtain ps where ps: "new_events ?w (fst (rotate_LogFile ?w app_log_open)) =
       ?pre @ EvWalk ''logs'' # map EvRemove ps @ [EvOpenFile (activePath app_log_open)]"
    "set ps \<subseteq> set (stale_paths ?w ''logs'' logs_dir)"
    "\<forall>nm es. logs_dir = DirNode nm es \<and> list_all is_file es \<longrightarrow>
           ps = stale_before_fresh ?w ''logs'' es"
    "fst (rotate_LogFile ?w (app_log_open\<lparr>MaxFiles := 5\<rparr>)) = fst (rotate_LogFile ?w app_log_open)"
    by blast
  have "ps = [''logs/app-20250101000000.log'']"
    using ps(3) logs_dir_def plain_entries(2) by (simp add: logs_dir_pruned)
  then show ?thesis
    using ps(1,2,4) by (simp add: due_after_an_hour activePath_app_log_open)
qed

lemma app_txt_pattern: "fileNamePattern app_txt = ''app%s.txt''"
  by code_simp

text \<open>
  Claim C5 says that a rotation deletes the old files that share the extension of the base
  file. \<^verbatim>\<open>fileNamePattern\<close> and \<^verbatim>\<open>pruneFiles\<close> work with the extension of
  \<^verbatim>\<open>fileName\<close>, but the function handed to \<^verbatim>\<open>filepath.Walk\<close> tests the fixed
  suffix \<^verbatim>\<open>.log\<close>: a writer for \<^verbatim>\<open>app.txt\<close>, whose rotated files end in
  \<^verbatim>\<open>.txt\<close>, keeps its own rotated file of 300 days ago, and removes the 300 days old
  \<^verbatim>\<open>notes.log\<close> of another program that lies in the same directory.
\<close>

theorem age_pruning_ignores_the_base_extension:
  "filepath_Ext (fileName app_txt) = ''.txt'' \<and>
   fileNamePattern app_txt = ''app%s.txt'' \<and>
   filepath_Ext ''app-20250101000000.txt'' = ''.txt'' \<and>
   time_Since (quiet_world (t0 + Hour) txt_dir) long_ago > thirty_days \<and>
   lstat_tree (quiet_world (t0 + Hour) txt_dir)
     [EvClose 7, EvRename ''logs/app.txt'' ''logs/app-20261101123456.txt''] ''logs'' = txt_dir \<and>
   rotate_due (quiet_world (t0 + Hour) txt_dir) app_txt \<and>
   new_events (quiet_world (t0 + Hour) txt_dir)
       (fst (rotate_LogFile (quiet_world (t0 + Hour) txt_dir) app_txt)) =
     [EvClose 7, EvRename ''logs/app.txt'' ''logs/app-20261101123456.txt'', EvWalk ''logs'',
      EvRemove ''logs/notes.log'', EvOpenFile ''logs/app.txt'']"
proof -
  let ?w = "quiet_world (t0 + Hour) txt_dir"
  let ?pre = "[EvClose 7, EvRename ''logs/app.txt'' ''logs/app-20261101123456.txt'']"
  have pre: "?pre = (case FileInfo app_txt of None \<Rightarrow> [] | Some h \<Rightarrow> [EvClose h]) @
               [EvRename (fullName app_txt) (rotateName app_txt)]"
    by (simp add: app_txt_fields)
  have root: "''logs'' = filepath_Dir (fullName app_txt)"
    by (simp add: app_txt_fields Dir_logs_app_txt)
  have tree: "txt_dir = lstat_tree ?w (trace ?w @ ?pre) ''logs''" by simp
  obtain ps where ps: "new_events ?w (fst (rotate_LogFile ?w app_txt)) =
       ?pre @ EvWalk ''logs'' # map EvRemove ps @ [EvOpenFile (activePath app_txt)]"
    "set ps \<subseteq> set (stale_paths ?w ''logs'' txt_dir)"
    "\<forall>nm es. txt_dir = DirNode nm es \<and> list_all is_file es \<longrightarrow>
           ps = stale_before_fresh ?w ''logs'' es"
    by (rule rotate_prunes [OF due_after_an_hour(1) pre root tree])
  have "ps = [''logs/notes.log'']"
    using ps(3) txt_dir_def plain_entries(1) by (simp add: txt_dir_pruned)
  then show ?thesis
    using ps(1) by (simp add: old_txt_facts due_after_an_hour activePath_app_txt app_txt_pattern)
qed

section \<open>When the active file cannot be opened\<close>

text \<open>
  When no attempt to open the active path succeeds, an accepted \<^verbatim>\<open>Write\<close> that has
  to open the file, for the first time or after a rotation, returns 0 bytes and the error of
  the open; the writer keeps its handle, creation time, byte count and configuration, and has
  \<^verbatim>\<open>fullName\<close> and \<^verbatim>\<open>rotateName\<close> set to the paths of the attempt.
\<close>

lemma Write_failed_open:
  assumes "logFilter l b" and "\<forall>tr. open_result w tr (activePath l) = Inl e"
    and "FileInfo l = None \<or> rotate_due w l"
  shows "snd (Write w l b) =
           (l\<lparr>fullName := activePath l, rotateName := rotatedPath w l (now w)\<rparr>, (0, Some e))"
proof (cases "FileInfo l")
  case None
  have "openNew (emits w [EvLock]) l = (emits (emits w [EvLock]) [EvOpenFile (activePath l)],
     l\<lparr>fullName := activePath l, rotateName := rotatedPath (emits w [EvLock]) l (now (emits w [EvLock]))\<rparr>, Some e)"
    using assms(2) by (intro openNew_fail) simp
  then show ?thesis using assms(1) None by (simp add: Write_accepts)
next
  case (Some h)
  then have due: "rotate_due w l" using assms(3) by simp
  from Write_rotation [OF assms(1) Some due] obtain ps where
    W: "Write w l b =
    (case open_result w
            (trace w @ [EvLock, EvClose h, EvRename (fullName l) (rotateName l),
               EvWalk (filepath_Dir (fullName l))] @ map EvRemove ps) (activePath l) of
       Inl e \<Rightarrow>
         (emits w ([EvLock, EvClose h, EvRename (fullName l) (rotateName l),
               EvWalk (filepath_Dir (fullName l))] @ map EvRemove ps @
               [EvOpenFile (activePath l), EvUnlock]),
          l\<lparr>fullName := activePath l, rotateName := rotatedPath w l (now w)\<rparr>,
          (0, Some e))
     | Inr h' \<Rightarrow>
         (emits w ([EvLock, EvClose h, EvRename (fullName l) (rotateName l),
               EvWalk (filepath_Dir (fullName l))] @ map EvRemove ps @
               [EvOpenFile (activePath l), EvFileWrite h' b, EvUnlock]),
          l\<lparr>fullName := activePath l, rotateName := rotatedPath w l (now w),
            FileInfo := Some h', LastCreated := now w,
            BytesWritten := wrap64 (int (length b))\<rparr>,
          snd (File_Write
                 (emits w ([EvLock, EvClose h, EvRename (fullName l) (rotateName l),
                    EvWalk (filepath_Dir (fullName l))] @ map EvRemove ps @
                    [EvOpenFile (activePath l)])) (Some h') b)))" .
  show ?thesis using assms(2) by (simp add: W)
qed

text \<open>
  When the interval is not positive, the \<^verbatim>\<open>Write\<close> that opens the file rotates at
  once. If that second open fails, the call returns 0 bytes and the error, and the writer
  keeps the handle, the creation time and the byte count of the first open, whose file the
  rotation has closed and renamed.
\<close>

lemma Write_lazy_open_then_failed_reopen:
  assumes "logFilter l b" and "FileInfo l = None" and "duration l \<le> 0"
    and "open_result w (trace w @ [EvLock]) (activePath l) = Inr h"
    and "\<forall>tr. tr \<noteq> trace w @ [EvLock] \<longrightarrow> open_result w tr (activePath l) = Inl e"
  shows "snd (Write w l b) =
           (l\<lparr>fullName := activePath l, rotateName := rotatedPath w l (now w),
              FileInfo := Some h, LastCreated := now w, BytesWritten := 0\<rparr>, (0, Some e))"
proof -
  let ?l1 = "l\<lparr>fullName := activePath l, rotateName := rotatedPath w l (now w),
              FileInfo := Some h, LastCreated := now w, BytesWritten := 0\<rparr>"
  let ?w1 = "emits w [EvLock, EvOpenFile (activePath l)]"
  have "openNew (emits w [EvLock]) l = (emits (emits w [EvLock]) [EvOpenFile (activePath l)],
     l\<lparr>fullName := activePath l, rotateName := rotatedPath (emits w [EvLock]) l (now (emits w [EvLock])),
       FileInfo := Some h, LastCreated := now (emits w [EvLock]), BytesWritten := 0\<rparr>, None)"
    using assms(4) by (intro openNew_ok) simp
  then have o1: "openNew (emits w [EvLock]) l = (?w1, ?l1, None)" by simp
  have same: "activePath ?l1 = activePath l" "rotatedPath w' ?l1 t = rotatedPath w' l t" for w' t
    by (simp_all add: activePath_def rotatedPath_def fileNamePattern_def)
  have due: "rotate_due ?w1 ?l1"
    using assms(3) by (simp add: rotate_due_fresh)
  from rotate_due_events [OF due] obtain ps where
    r: "rotate_LogFile ?w1 ?l1 =
      openNew (emits ?w1 ((case FileInfo ?l1 of None \<Rightarrow> [] | Some h \<Rightarrow> [EvClose h]) @
       EvRename (fullName ?l1) (rotateName ?l1) # EvWalk (filepath_Dir (fullName ?l1)) #
       map EvRemove ps)) ?l1"
    by blast
  let ?w2 = "emits ?w1 ((case FileInfo ?l1 of None \<Rightarrow> [] | Some h \<Rightarrow> [EvClose h]) @
       EvRename (fullName ?l1) (rotateName ?l1) # EvWalk (filepath_Dir (fullName ?l1)) #
       map EvRemove ps)"
  have "trace ?w2 \<noteq> trace w @ [EvLock]" by simp
  then have "open_result ?w2 (trace ?w2) (activePath ?l1) = Inl e"
    using assms(5) same(1) by simp
  from openNew_fail [OF this] have o2: "openNew ?w2 ?l1 =
     (emits ?w2 [EvOpenFile (activePath ?l1)],
      ?l1\<lparr>fullName := activePath ?l1, rotateName := rotatedPath ?w2 ?l1 (now ?w2)\<rparr>, Some e)" .
  have "snd (openNew ?w2 ?l1) = (?l1, Some e)"
    unfolding o2 by (simp add: same)
  then have "snd (rotate_LogFile ?w1 ?l1) = (?l1, Some e)" using r by simp
  then obtain w3 where "rotate_LogFile ?w1 ?l1 = (w3, ?l1, Some e)"
    by (cases "rotate_LogFile ?w1 ?l1") auto
  then show ?thesis using assms(1,2) o1 by (simp add: Write_accepts)
qed

lemma eager_fields:
  "logFilter app_log_eager b" "FileInfo app_log_eager = None" "duration app_log_eager = 0"
  "LastCreated app_log_eager = 0"
  by (simp_all add: app_log_eager_def app_log_def)

lemma activePath_app_log_eager: "activePath app_log_eager = ''logs/app.log''"
  by code_simp

lemma reopen_fails_after_lazy_open:
  "FileInfo app_log_eager = None \<and> LastCreated app_log_eager = 0 \<and>
   snd (snd (Write flaky_world app_log_eager ''line'')) = (0, Some (OSError ''too many open files'')) \<and>
   FileInfo (fst (snd (Write flaky_world app_log_eager ''line''))) = Some 1 \<and>
   LastCreated (fst (snd (Write flaky_world app_log_eager ''line''))) = t0"
proof -
  have 1: "open_result flaky_world (trace flaky_world @ [EvLock]) (activePath app_log_eager) = Inr 1"
    by (simp add: flaky_world_def)
  have 2: "\<forall>tr. tr \<noteq> trace flaky_world @ [EvLock] \<longrightarrow>
      open_result flaky_world tr (activePath app_log_eager) = Inl (OSError ''too many open files'')"
    by (simp add: flaky_world_def)
  have 3: "duration app_log_eager \<le> 0" by (simp add: eager_fields)
  from Write_lazy_open_then_failed_reopen [OF eager_fields(1,2) 3 1 2, of "''line''"]
  show ?thesis by (simp add: eager_fields now_def flaky_world_def)
qed

lemma read_only_open: "open_result (read_only_world t) tr name = Inl (OSError ''read-only file system'')"
  by (simp add: read_only_world_def)

lemma read_only_clock [simp]: "clock (read_only_world t) = t"
  by (simp add: read_only_world_def)

lemma app_log_fields:
  "logFilter app_log b" "FileInfo app_log = None" "fullName app_log = []" "rotateName app_log = []"
  by (simp_all add: app_log_def)

lemma activePath_app_log: "activePath app_log = ''logs/app.log''"
  by code_simp

lemma rotatedPath_app_log_t0: "rotatedPath (read_only_world t0) app_log t0 = ''logs/app-20261101123456.log''"
  by code_simp

text \<open>
  Claim C8 says that a \<^verbatim>\<open>Write\<close> whose open fails mutates no state of the writer.
  \<^verbatim>\<open>openNew\<close> assigns the handle, the creation time and the byte count after it has
  checked the error of \<^verbatim>\<open>os.OpenFile\<close>, but \<^verbatim>\<open>fullName\<close> and
  \<^verbatim>\<open>rotateName\<close> before the call: a new writer, whose two names are empty, has both
  of them set by its first \<^verbatim>\<open>Write\<close> on a read-only file system, although the call
  returns 0 bytes and the error and keeps no handle.
\<close>

theorem failed_open_rewrites_names:
  "FileInfo app_log = None \<and> fullName app_log = [] \<and> rotateName app_log = [] \<and>
   snd (snd (Write (read_only_world t0) app_log ''line'')) =
     (0, Some (OSError ''read-only file system'')) \<and>
   fullName (fst (snd (Write (read_only_world t0) app_log ''line''))) = ''logs/app.log'' \<and>
   rotateName (fst (snd (Write (read_only_world t0) app_log ''line''))) =
     ''logs/app-20261101123456.log'' \<and>
   fst (snd (Write (read_only_world t0) app_log ''line'')) \<noteq> app_log"
proof -
  have "\<forall>tr. open_result (read_only_world t0) tr (activePath app_log) =
      Inl (OSError ''read-only file system'')"
    by (simp add: read_only_open)
  from Write_failed_open [OF app_log_fields(1) this, of "''line''"] app_log_fields(2)
  have W: "snd (Write (read_only_world t0) app_log ''line'') =
     (app_log\<lparr>fullName := ''logs/app.log'', rotateName := ''logs/app-20261101123456.log''\<rparr>,
      (0, Some (OSError ''read-only file system'')))"
    by (simp add: activePath_app_log now_def rotatedPath_app_log_t0)
  have "app_log\<lparr>fullName := ''logs/app.log'', rotateName := ''logs/app-20261101123456.log''\<rparr>
      \<noteq> app_log"
  proof
    assume "app_log\<lparr>fullName := ''logs/app.log'', rotateName := ''logs/app-20261101123456.log''\<rparr>
      = app_log"
    then have "fullName (app_log\<lparr>fullName := ''logs/app.log'',
        rotateName := ''logs/app-20261101123456.log''\<rparr>) = fullName app_log"
      by (rule arg_cong)
    then show False by (simp add: app_log_fields)
  qed
  then show ?thesis by (simp add: W app_log_fields)
qed

section \<open>Failures during a rotation\<close>

text \<open>
  \<^verbatim>\<open>rotate\<close> drops what \<^verbatim>\<open>Close\<close>, \<^verbatim>\<open>os.Rename\<close> and \<^verbatim>\<open>filepath.Walk\<close>
  return and goes on to \<^verbatim>\<open>openNew\<close> (lemma \<open>rotate_due_events\<close>), so that the result
  of a rotating \<^verbatim>\<open>Write\<close> is decided by the open and the write alone (lemma
  \<open>Write_rotation\<close>). The rename goes from \<^verbatim>\<open>fullName\<close> to \<^verbatim>\<open>rotateName\<close>,
  the two names that the last call of \<^verbatim>\<open>openNew\<close> stored. After a successful call
  these are the active path and the rotated path stamped with \<^verbatim>\<open>LastCreated\<close>:
\<close>

lemma names_after_successful_open:
  assumes "openNew w l = (w', l', None)"
  shows "fullName l' = activePath l \<and> rotateName l' = rotatedPath w l (LastCreated l')"
proof (cases "open_result w (trace w) (activePath l)")
  case (Inl e)
  then show ?thesis using assms by (simp add: openNew_fail)
next
  case (Inr h)
  then show ?thesis using assms by (auto simp add: openNew_ok)
qed

lemma renames_simps [simp]:
  "filter is_rename (map EvRemove ps) = []"
  by (induction ps) simp_all

lemma Write_rotation_renames:
  assumes "logFilter l b" and "FileInfo l = Some h" and "rotate_due w l"
  shows "filter is_rename (new_events w (fst (Write w l b))) =
           [EvRename (fullName l) (rotateName l)]"
proof -
  from Write_rotation [OF assms] obtain ps where
    W: "Write w l b =
    (case open_result w
            (trace w @ [EvLock, EvClose h, EvRename (fullName l) (rotateName l),
               EvWalk (filepath_Dir (fullName l))] @ map EvRemove ps) (activePath l) of
       Inl e \<Rightarrow>
         (emits w ([EvLock, EvClose h, EvRename (fullName l) (rotateName l),
               EvWalk (filepath_Dir (fullName l))] @ map EvRemove ps @
               [EvOpenFile (activePath l), EvUnlock]),
          l\<lparr>fullName := activePath l, rotateName := rotatedPath w l (now w)\<rparr>,
          (0, Some e))
     | Inr h' \<Rightarrow>
         (emits w ([EvLock, EvClose h, EvRename (fullName l) (rotateName l),
               EvWalk (filepath_Dir (fullName l))] @ map EvRemove ps @
               [EvOpenFile (activePath l), EvFileWrite h' b, EvUnlock]),
          l\<lparr>fullName := activePath l, rotateName := rotatedPath w l (now w),
            FileInfo := Some h', LastCreated := now w,
            BytesWritten := wrap64 (int (length b))\<rparr>,
          snd (File_Write
                 (emits w ([EvLock, EvClose h, EvRename (fullName l) (rotateName l),
                    EvWalk (filepath_Dir (fullName l))] @ map EvRemove ps @
                    [EvOpenFile (activePath l)])) (Some h') b)))" .
  show ?thesis
    by (cases "open_result w
            (trace w @ [EvLock, EvClose h, EvRename (fullName l) (rotateName l),
               EvWalk (filepath_Dir (fullName l))] @ map EvRemove ps) (activePath l)")
      (simp_all add: W)
qed

lemma app_log_stuck_fields:
  "logFilter app_log_stuck b" "FileInfo app_log_stuck = Some 7" "LastCreated app_log_stuck = t0"
  "fullName app_log_stuck = ''logs/app.log''" "duration app_log_stuck = Hour"
  "rotateName app_log_stuck = ''logs/app-20261101133456.log''"
  by (simp_all add: app_log_stuck_def app_log_open_def app_log_def)

lemma rotatedPath_app_log_open_later:
  "rotatedPath (read_only_world (t0 + Hour)) app_log_open (t0 + Hour) = ''logs/app-20261101133456.log''"
  by code_simp

lemma rotatedPath_app_log_stuck_created:
  "rotatedPath (quiet_world (t0 + 2 * Hour) logs_dir) app_log_stuck (LastCreated app_log_stuck)
     = ''logs/app-20261101123456.log''"
  by code_simp

lemma due_later:
  "rotate_due (read_only_world (t0 + Hour)) app_log_open"
  "rotate_due (quiet_world (t0 + 2 * Hour) logs_dir) app_log_stuck"
  by (simp_all add: rotate_due_def time_Since_def time_Sub_def app_log_open_fields
      app_log_stuck_fields maxDuration_def minDuration_def Hour_def Second_def)

text \<open>
  Claim C7 says that the old file is renamed to the path stamped with its creation time.
  \<^verbatim>\<open>openNew\<close> stores the new \<^verbatim>\<open>rotateName\<close> before it knows whether the open
  succeeds, and a failed open leaves it behind. The file is open since \<open>t0\<close>
  (12:34:56). An hour later the file system is read-only: the rotation cannot rename the
  file, and its reopen fails after it has stamped \<^verbatim>\<open>rotateName\<close> with 13:34:56.
  Another hour later the file system is writable again, and the next \<^verbatim>\<open>Write\<close> renames
  the file, created at 12:34:56, to the name stamped 13:34:56.
\<close>

theorem stamp_of_a_failed_reopen_is_used:
  "snd (Write (read_only_world (t0 + Hour)) app_log_open ''line'') =
     (app_log_stuck, (0, Some (OSError ''read-only file system''))) \<and>
   filter is_rename (new_events (quiet_world (t0 + 2 * Hour) logs_dir)
       (fst (Write (quiet_world (t0 + 2 * Hour) logs_dir) app_log_stuck ''line''))) =
     [EvRename ''logs/app.log'' ''logs/app-20261101133456.log''] \<and>
   rotatedPath (quiet_world (t0 + 2 * Hour) logs_dir) app_log_stuck (LastCreated app_log_stuck) =
     ''logs/app-20261101123456.log''"
proof -
  have o: "\<forall>tr. open_result (read_only_world (t0 + Hour)) tr (activePath app_log_open) =
      Inl (OSError ''read-only file system'')"
    by (simp add: read_only_open)
  have "snd (Write (read_only_world (t0 + Hour)) app_log_open ''line'') =
     (app_log_open\<lparr>fullName := activePath app_log_open,
        rotateName := rotatedPath (read_only_world (t0 + Hour)) app_log_open
                        (now (read_only_world (t0 + Hour)))\<rparr>,
      (0, Some (OSError ''read-only file system'')))"
    using due_later(1) by (intro Write_failed_open [OF app_log_open_fields(1) o]) simp
  then have 1: "snd (Write (read_only_world (t0 + Hour)) app_log_open ''line'') =
     (app_log_stuck, (0, Some (OSError ''read-only file system'')))"
    by (simp add: now_def rotatedPath_app_log_open_later activePath_app_log_open)
      (simp add: app_log_stuck_def app_log_open_def)
  have 2: "filter is_rename (new_events (quiet_world (t0 + 2 * Hour) logs_dir)
       (fst (Write (quiet_world (t0 + 2 * Hour) logs_dir) app_log_stuck ''line''))) =
     [EvRename ''logs/app.log'' ''logs/app-20261101133456.log'']"
    using Write_rotation_renames [OF app_log_stuck_fields(1,2) due_later(2), of "''line''"]
    by (simp add: app_log_stuck_fields)
  show ?thesis using 1 2 rotatedPath_app_log_stuck_created by simp
qed

section \<open>The names of the files\<close>

text \<open>
  A file name without a percent sign is split into a stem and an extension, \<^verbatim>\<open>.log\<close>
  when it has none; the active path is the directory joined with stem and extension, and the
  rotated path has a hyphen and the stamp of the second between the two. Both are functions
  of the configuration, the instant and the time zone.
\<close>

lemma doPrintf_plain: "CHR ''%'' \<notin> set xs \<Longrightarrow> doPrintf xs [] = xs"
proof (induction xs "[] :: string list" rule: doPrintf.induct)
  case 1
  then show ?case by simp
next
  case (3 c)
  then show ?case by simp
next
  case (4 c v fs)
  then show ?case by auto
qed

lemma doPrintf_one:
  assumes "CHR ''%'' \<notin> set pre" and "CHR ''%'' \<notin> set post"
  shows "doPrintf (pre @ ''%s'' @ post) [a] = pre @ a @ post"
  using assms(1)
proof (induction pre)
  case Nil
  then show ?case using assms(2) by (simp add: doPrintf_plain)
next
  case (Cons c pre)
  obtain v fs where "pre @ ''%s'' @ post = v # fs"
    by (cases "pre @ ''%s'' @ post") auto
  then show ?case using Cons by auto
qed

lemma filepath_Ext_suffix: "\<exists>stem. path = stem @ filepath_Ext path"
proof (cases "CHR ''.'' \<in> set (takeWhile (\<lambda>c. c \<noteq> CHR ''/'') (rev path))")
  case False
  then have "filepath_Ext path = []" by (simp add: filepath_Ext_def)
  then show ?thesis by simp
next
  case True
  let ?le = "takeWhile (\<lambda>c. c \<noteq> CHR ''/'') (rev path)"
  let ?tw = "takeWhile (\<lambda>c. c \<noteq> CHR ''.'') ?le"
  have e: "filepath_Ext path = CHR ''.'' # rev ?tw"
    using True by (simp add: filepath_Ext_def)
  have "dropWhile (\<lambda>c. c \<noteq> CHR ''.'') ?le \<noteq> []"
    using True by (simp add: dropWhile_eq_Nil_conv)
  moreover have "hd (dropWhile (\<lambda>c. c \<noteq> CHR ''.'') ?le) = CHR ''.''"
    using True hd_dropWhile [of "\<lambda>c. c \<noteq> CHR ''.''" ?le] calculation by blast
  ultimately obtain more where m: "dropWhile (\<lambda>c. c \<noteq> CHR ''.'') ?le = CHR ''.'' # more"
    by (cases "dropWhile (\<lambda>c. c \<noteq> CHR ''.'') ?le") auto
  have "?le = ?tw @ CHR ''.'' # more"
    using takeWhile_dropWhile_id [of "\<lambda>c. c \<noteq> CHR ''.''" ?le] m by simp
  moreover have "rev path = ?le @ dropWhile (\<lambda>c. c \<noteq> CHR ''/'') (rev path)"
    by simp
  ultimately have "rev path = ?tw @ CHR ''.'' # more @ dropWhile (\<lambda>c. c \<noteq> CHR ''/'') (rev path)"
    by (metis append.assoc append_Cons)
  then have "rev (rev path) =
      rev (?tw @ CHR ''.'' # more @ dropWhile (\<lambda>c. c \<noteq> CHR ''/'') (rev path))"
    by simp
  then have "path = (rev (dropWhile (\<lambda>c. c \<noteq> CHR ''/'') (rev path)) @ rev more) @ filepath_Ext path"
    by (simp add: e)
  then show ?thesis by blast
qed

lemma strings_TrimSuffix_append: "strings_TrimSuffix (stem @ suf) suf = stem"
  by (simp add: strings_TrimSuffix_def strings_HasSuffix_def)

lemma no_Ext_no_log_suffix:
  assumes "filepath_Ext path = []"
  shows "\<not> strings_HasSuffix path ''.log''"
proof
  assume "strings_HasSuffix path ''.log''"
  then have "drop (length path - length ''.log'') path = ''.log''"
    unfolding strings_HasSuffix_def by blast
  then obtain stem where "path = stem @ ''.log''"
    using append_take_drop_id [of "length path - length ''.log''" path] by metis
  then have "rev path = ''gol.'' @ rev stem" by simp
  then have "CHR ''.'' \<in> set (takeWhile (\<lambda>c. c \<noteq> CHR ''/'') (rev path))" by simp
  then have "filepath_Ext path \<noteq> []" by (simp add: filepath_Ext_def)
  then show False using assms by simp
qed

lemma names_without_percent:
  assumes "CHR ''%'' \<notin> set (fileName l)"
    and "ext = (if filepath_Ext (fileName l) = [] then ''.log'' else filepath_Ext (fileName l))"
    and "stem = strings_TrimSuffix (fileName l) ext"
  shows "stem @ ext = (if filepath_Ext (fileName l) = [] then fileName l @ ''.log'' else fileName l)"
    and "activePath l = filepath_Join (logPath l) (stem @ ext)"
    and "rotatedPath w l t =
           filepath_Join (logPath l)
             (stem @ ''-'' @ format_20060102150405 (zone w (time_Unix t)) (time_Unix t) @ ext)"
proof -
  have se: "stem @ ext = (if filepath_Ext (fileName l) = [] then fileName l @ ''.log'' else fileName l)
      \<and> CHR ''%'' \<notin> set stem \<and> CHR ''%'' \<notin> set ext"
  proof (cases "filepath_Ext (fileName l) = []")
    case True
    then have "ext = ''.log''" using assms(2) by simp
    moreover have "stem = fileName l"
      using no_Ext_no_log_suffix [OF True] assms(3) calculation
      by (simp add: strings_TrimSuffix_def)
    ultimately show ?thesis using True assms(1) by simp
  next
    case False
    then have e: "ext = filepath_Ext (fileName l)" using assms(2) by simp
    obtain s where s: "fileName l = s @ filepath_Ext (fileName l)"
      using filepath_Ext_suffix by blast
    then have "stem = s"
      using assms(3) e strings_TrimSuffix_append [of s "filepath_Ext (fileName l)"] by simp
    moreover have "CHR ''%'' \<notin> set s \<and> CHR ''%'' \<notin> set (filepath_Ext (fileName l))"
      using assms(1) s by (metis Un_iff set_append)
    ultimately show ?thesis using False e s by simp
  qed
  have pat: "fileNamePattern l = stem @ ''%s'' @ ext"
    using assms(2,3) by (simp add: fileNamePattern_def Let_def)
  show "stem @ ext = (if filepath_Ext (fileName l) = [] then fileName l @ ''.log'' else fileName l)"
    using se by blast
  have "fmt_Sprintf (fileNamePattern l) [[]] = stem @ [] @ ext"
    unfolding pat fmt_Sprintf_def using se by (intro doPrintf_one) simp_all
  then show "activePath l = filepath_Join (logPath l) (stem @ ext)"
    by (simp add: activePath_def)
  have "fmt_Sprintf (fileNamePattern l)
          [''-'' @ format_20060102150405 (zone w (time_Unix t)) (time_Unix t)]
        = stem @ (''-'' @ format_20060102150405 (zone w (time_Unix t)) (time_Unix t)) @ ext"
    unfolding pat fmt_Sprintf_def using se by (intro doPrintf_one) simp_all
  then show "rotatedPath w l t =
           filepath_Join (logPath l)
             (stem @ ''-'' @ format_20060102150405 (zone w (time_Unix t)) (time_Unix t) @ ext)"
    by (simp add: rotatedPath_def)
qed

lemma sprintf_modelled_plain: "CHR ''%'' \<notin> set xs \<Longrightarrow> sprintf_modelled xs"
  by (induction xs rule: sprintf_modelled.induct) auto

lemma sprintf_modelled_one:
  assumes "CHR ''%'' \<notin> set pre" and "CHR ''%'' \<notin> set post"
  shows "sprintf_modelled (pre @ ''%s'' @ post)"
  using assms(1)
proof (induction pre)
  case Nil
  then show ?case using assms(2) by (simp add: sprintf_modelled_plain)
next
  case (Cons c pre)
  obtain v fs where "pre @ ''%s'' @ post = v # fs"
    by (cases "pre @ ''%s'' @ post") auto
  then show ?case using Cons by auto
qed

lemma cpu_log_pattern: "fileNamePattern cpu_log = ''cpu%%s.log''"
  by code_simp

lemma cpu_log_activePath: "activePath cpu_log = ''logs/cpu%s.log%!(EXTRA string=)''"
  by code_simp

lemma cpu_log_rotatedPath:
  "rotatedPath (quiet_world t0 logs_dir) cpu_log t0 = ''logs/cpu%s.log%!(EXTRA string=-20261101123456)''"
  by code_simp

lemma cpu_log_wanted: "filepath_Join (logPath cpu_log) (fileName cpu_log) = ''logs/cpu%.log''"
  by code_simp

text \<open>
  Claim C6 says that the active path is the directory joined with the base name.
  \<^verbatim>\<open>fileNamePattern\<close> puts the file name into a format string and \<^verbatim>\<open>openNew\<close>
  passes it to \<^verbatim>\<open>fmt.Sprintf\<close>, which reads a percent sign in the name as the start of
  a verb. For the file name \<^verbatim>\<open>cpu%.log\<close> the pattern is \<^verbatim>\<open>cpu%%s.log\<close>: the two
  percent signs print one, the \<^verbatim>\<open>s\<close> that was to take the stamp is plain text, and
  the unused operand is reported at the end. The active file is not
  \<^verbatim>\<open>logs/cpu%.log\<close>, and the stamp of the rotated file is not in front of the
  extension.
\<close>

theorem percent_in_file_name_is_a_verb:
  "fileName cpu_log = ''cpu%.log'' \<and>
   fileNamePattern cpu_log = ''cpu%%s.log'' \<and>
   sprintf_modelled (fileNamePattern cpu_log) \<and>
   openNew (quiet_world t0 logs_dir) cpu_log =
     (emits (quiet_world t0 logs_dir) [EvOpenFile ''logs/cpu%s.log%!(EXTRA string=)''],
      cpu_log\<lparr>fullName := ''logs/cpu%s.log%!(EXTRA string=)'',
        rotateName := ''logs/cpu%s.log%!(EXTRA string=-20261101123456)'',
        FileInfo := Some 0, LastCreated := t0, BytesWritten := 0\<rparr>,
      None) \<and>
   filepath_Join (logPath cpu_log) (fileName cpu_log) = ''logs/cpu%.log''"
proof -
  have "open_result (quiet_world t0 logs_dir) (trace (quiet_world t0 logs_dir)) (activePath cpu_log)
      = Inr 0"
    by (simp add: quiet_open)
  from openNew_ok [OF this] show ?thesis
    by (simp add: cpu_log_pattern cpu_log_activePath cpu_log_rotatedPath cpu_log_wanted now_def)
      (simp add: cpu_log_def)
qed

end
